theory Spec2Isabelle
  imports Complex_Main "HOL-Library.Sublist" "HOL-Library.Log_Nat"
begin

section \<open>The session hook \<open>useGeminiLive\<close>: data model\<close>

text \<open>
  The hook keeps its state in React refs and React state cells. JavaScript objects that
  are shared by reference (transcript entries, audio source nodes, media tracks, media
  streams) live in explicit heaps: a heap is a list, an address is an index into it, and
  allocation appends. Arrays are values: the source never updates an array in place (it
  always builds a new one with the spread syntax), whereas it does update the fields of
  the objects the arrays point to.

  Times (\<open>AudioContext.currentTime\<close>, \<open>AudioBuffer.duration\<close>, \<open>nextStartTimeRef\<close>) are
  JavaScript numbers, that is IEEE 754 doubles. They are reals here, and the one
  arithmetic operation the hook applies to them, the addition of line 225, rounds its
  exact result to the nearest double, ties to even (\<open>fadd\<close> below). \<open>Math.max\<close> is exact.
  Sums beyond the largest double (Infinity) and NaN are not modelled.
\<close>

subsection \<open>Addition of doubles\<close>

text \<open>The power of two with an integer exponent.\<close>
definition pow2 :: "int \<Rightarrow> real" where
  "pow2 k = (if 0 \<le> k then 2 ^ nat k else 1 / 2 ^ nat (- k))"

text \<open>Rounding to the nearest integer, a tie to the even one.\<close>
definition roundEven :: "real \<Rightarrow> int" where
  "roundEven x =
     (let f = \<lfloor>x\<rfloor>
      in if x - of_int f < 1 / 2 then f
         else if 1 / 2 < x - of_int f then f + 1
         else if even f then f else f + 1)"

text \<open>The binary exponent of a number other than 0: \<open>2 ^ binade x \<le> |x| < 2 ^ (binade x + 1)\<close>
  (lemma \<open>binade_bounds\<close>).\<close>
definition binade :: "real \<Rightarrow> int" where
  "binade x =
     (if 1 \<le> \<bar>x\<bar> then bitlen \<lfloor>\<bar>x\<bar>\<rfloor> - 1 else - bitlen (\<lceil>1 / \<bar>x\<bar>\<rceil> - 1))"

text \<open>The double nearest to a real: 53 significant bits, the exponent of the last bit not
  below -1074 (subnormal numbers), ties to even.\<close>
definition toDouble :: "real \<Rightarrow> real" where
  "toDouble x =
     (if x = 0 then 0
      else let e = max (binade x) (- 1022) - 52
           in of_int (roundEven (x / pow2 e)) * pow2 e)"

text \<open>The \<open>+\<close> of JavaScript on numbers.\<close>
definition fadd :: "real \<Rightarrow> real \<Rightarrow> real" where
  "fadd x y = toDouble (x + y)"

subsection \<open>Objects and state\<close>

datatype sender = User | Ai

text \<open>\<open>interface Transcription { id; sender; text; isFinal }\<close>\<close>
record Transcription =
  idT :: string
  senderT :: sender
  textT :: string
  isFinalT :: bool

text \<open>An \<open>AudioBufferSourceNode\<close> created by \<open>onmessage\<close>: the duration of its buffer, the
  time given to \<open>start\<close>, and whether \<open>stop\<close> has been called on it.\<close>
record source_node =
  bufferDuration :: real
  startedAt :: real
  stopCalled :: bool

datatype track_kind = AudioKind | VideoKind

text \<open>A \<open>MediaStreamTrack\<close>; \<open>stop()\<close> ends it for good.\<close>
record track =
  kindOf :: track_kind
  deviceOf :: string
  ended :: bool

datatype context_state = Running | Suspended | Closed

text \<open>What the promise returned by \<open>ai.live.connect\<close> does when it is awaited: it
  resolves to a session, it rejects, or it never settles.\<close>
datatype promise = Resolves | Rejects | Pending

text \<open>The calls the hook makes into the platform and to its observer, recorded in
  program order. Addresses refer to the heaps of the state. The call of the observer
  records the array it is given (the addresses of the entries) and what these entries
  hold at the time of the call.\<close>
datatype call =
    ClearInterval nat
  | SourceStop nat
  | ProcessorDisconnect
  | TrackStop nat
  | InputContextClose
  | OutputContextClose
  | SessionClose
  | GetUserMedia bool "string option"
  | OnTranscriptionUpdate "nat list" "Transcription list"
  | DecodeAudioData string
  | SourceStart nat real
  | ConsoleError string

datatype error = TypeError | DecodeFailure | DeviceAcquisitionFailure

text \<open>How an \<open>async\<close> function of the hook ends: its promise is fulfilled or rejected.
  The mutations made before a rejection stay.\<close>
datatype outcome = Fulfilled | Rejected error

text \<open>\<open>serverContent.modelTurn\<close>: its \<open>parts\<close> array may be missing
  (then \<open>parts[0]\<close>
  throws), otherwise \<open>parts[0]?.inlineData?.data\<close> is a string or undefined.\<close>
datatype model_turn = PartsMissing | Part0 "string option"

text \<open>The fields of a \<open>LiveServerMessage\<close> that \<open>onmessage\<close> reads. A message without
  \<open>serverContent\<close> is the message with every field absent or false. The \<open>text\<close> of a
  transcription is taken as present.\<close>
record message =
  inputTranscription :: "string option"
  outputTranscription :: "string option"
  turnComplete :: bool
  interrupted :: bool
  modelTurn :: "model_turn option"

record hook_state =
  isConnecting :: bool
  isConnected :: bool
  localStream :: "nat option"
  sessionPromiseRef :: "promise option"
  mediaStreamRef :: "nat option"
  inputAudioContextRef :: "context_state option"
  outputAudioContextRef :: "context_state option"
  scriptProcessorRef :: bool
  outputGainNodeRef :: bool
  nextStartTimeRef :: real
  audioSourcesRef :: "nat list"
  videoElementRef :: "nat option option"
  canvasElementRef :: bool
  frameIntervalRef :: "nat option"
  transcriptionsRef :: "nat list"
  currentInputTranscriptionRef :: "nat option"
  currentOutputTranscriptionRef :: "nat option"
  entries :: "Transcription list"
  nodes :: "source_node list"
  tracks :: "track list"
  streams :: "nat list list"
  calls :: "call list"

text \<open>The state of a freshly mounted hook: the initial values of \<open>useState\<close> and
  \<open>useRef\<close>, empty heaps, no call made yet.\<close>
definition initial :: hook_state where
  "initial =
     \<lparr>isConnecting = False, isConnected = False, localStream = None,
      sessionPromiseRef = None, mediaStreamRef = None,
      inputAudioContextRef = None, outputAudioContextRef = None,
      scriptProcessorRef = False, outputGainNodeRef = False,
      nextStartTimeRef = 0, audioSourcesRef = [],
      videoElementRef = None, canvasElementRef = False, frameIntervalRef = None,
      transcriptionsRef = [], currentInputTranscriptionRef = None,
      currentOutputTranscriptionRef = None,
      entries = [], nodes = [], tracks = [], streams = [], calls = []\<rparr>"

definition emit :: "call list \<Rightarrow> hook_state \<Rightarrow> hook_state" where
  "emit cs s = s\<lparr>calls := calls s @ cs\<rparr>"

section \<open>Transcript handling in \<open>onmessage\<close>\<close>

text \<open>The slot of a sender: \<open>currentInputTranscriptionRef\<close> for the user,
  \<open>currentOutputTranscriptionRef\<close> for the model.\<close>
definition currentRef :: "sender \<Rightarrow> hook_state \<Rightarrow> nat option" where
  "currentRef who s =
     (case who of User \<Rightarrow> currentInputTranscriptionRef s
      | Ai \<Rightarrow> currentOutputTranscriptionRef s)"

definition setCurrentRef :: "sender \<Rightarrow> nat option \<Rightarrow> hook_state \<Rightarrow> hook_state" where
  "setCurrentRef who r s =
     (case who of User \<Rightarrow> s\<lparr>currentInputTranscriptionRef := r\<rparr>
      | Ai \<Rightarrow> s\<lparr>currentOutputTranscriptionRef := r\<rparr>)"

text \<open>\<open>ref.current.text += text\<close> on the entry at address \<open>a\<close>.\<close>
definition appendText :: "nat \<Rightarrow> string \<Rightarrow> hook_state \<Rightarrow> hook_state" where
  "appendText a txt s =
     s\<lparr>entries := (entries s)[a := (entries s ! a)\<lparr>textT := textT (entries s ! a) @ txt\<rparr>]\<rparr>"

text \<open>\<open>ref.current.isFinal = true\<close> on the entry at address \<open>a\<close>.\<close>
definition setFinal :: "nat \<Rightarrow> hook_state \<Rightarrow> hook_state" where
  "setFinal a s = s\<lparr>entries := (entries s)[a := (entries s ! a)\<lparr>isFinalT := True\<rparr>]\<rparr>"

text \<open>
  The two transcription branches of \<open>onmessage\<close> (lines 185-199), which differ in the
  slot and the sender only. \<open>gid\<close> is the string \<open>generateId()\<close> returns if it is called
  (it reads \<open>Math.random\<close>).
  \<^verbatim>\<open>
  if (!currentRef.current) {
    currentRef.current = { id: generateId(), sender, text: '', isFinal: false };
    transcriptionsRef.current = [...transcriptionsRef.current, currentRef.current];
  }
  currentRef.current.text += text;
  \<close>
\<close>
definition applyDelta :: "sender \<Rightarrow> string \<Rightarrow> string \<Rightarrow> hook_state \<Rightarrow> hook_state" where
  "applyDelta who gid txt s =
     (let s1 = (case currentRef who s of
                  Some _ \<Rightarrow> s
                | None \<Rightarrow>
                    let a = length (entries s);
                        s' = setCurrentRef who (Some a)
                               (s\<lparr>entries := entries s @
                                    [\<lparr>idT = gid, senderT = who, textT = [], isFinalT = False\<rparr>]\<rparr>)
                    in s'\<lparr>transcriptionsRef := transcriptionsRef s' @ [a]\<rparr>)
      in case currentRef who s1 of
           Some a \<Rightarrow> appendText a txt s1
         | None \<Rightarrow> s1)"

text \<open>The \<open>turnComplete\<close> block of \<open>onmessage\<close> (lines 201-206).\<close>
definition completeTurn :: "hook_state \<Rightarrow> hook_state" where
  "completeTurn s =
     (let s1 = (case currentInputTranscriptionRef s of
                  Some a \<Rightarrow> setFinal a s | None \<Rightarrow> s);
          s2 = (case currentOutputTranscriptionRef s1 of
                  Some a \<Rightarrow> setFinal a s1 | None \<Rightarrow> s1)
      in s2\<lparr>currentInputTranscriptionRef := None, currentOutputTranscriptionRef := None\<rparr>)"

text \<open>Lines 185-206: at most one delta (the input transcription wins over the output
  transcription, by the \<open>else if\<close>), then the turn boundary.\<close>
definition updateTranscript :: "string \<Rightarrow> message \<Rightarrow> hook_state \<Rightarrow> hook_state" where
  "updateTranscript gid m s =
     (let s1 = (case inputTranscription m of
                  Some txt \<Rightarrow> applyDelta User gid txt s
                | None \<Rightarrow>
                    (case outputTranscription m of
                       Some txt \<Rightarrow> applyDelta Ai gid txt s
                     | None \<Rightarrow> s))
      in if turnComplete m then completeTurn s1 else s1)"

text \<open>What the log reads: the entries its addresses point to, in order.\<close>
definition logContents :: "hook_state \<Rightarrow> Transcription list" where
  "logContents s = map (\<lambda>a. entries s ! a) (transcriptionsRef s)"

text \<open>Line 207: \<open>onTranscriptionUpdate([...transcriptionsRef.current])\<close>. The observer gets
  a new array holding the same entry objects.\<close>
definition notify :: "hook_state \<Rightarrow> hook_state" where
  "notify s = emit [OnTranscriptionUpdate (transcriptionsRef s) (logContents s)] s"

section \<open>Playback scheduling in \<open>onmessage\<close>\<close>

text \<open>
  The body of the audio branch (lines 211-226). \<open>decodeAudioData\<close> stands for
  \<open>decode\<close> followed by \<open>decodeAudioData\<close> of \<open>utils/audioUtils\<close>: it gives the duration
  of the decoded buffer, or \<open>None\<close> when decoding throws. \<open>currentTime\<close> is
  \<open>audioContext.currentTime\<close> as read on line 212.
\<close>
definition enqueue ::
  "(string \<Rightarrow> real option) \<Rightarrow> real \<Rightarrow> string \<Rightarrow> hook_state \<Rightarrow> outcome \<times> hook_state" where
  "enqueue decodeAudioData currentTime audioData s =
     (let s1 = s\<lparr>nextStartTimeRef := max (nextStartTimeRef s) currentTime\<rparr>;
          s2 = emit [DecodeAudioData audioData] s1
      in case decodeAudioData audioData of
           None \<Rightarrow> (Rejected DecodeFailure, s2)
         | Some duration \<Rightarrow>
             let a = length (nodes s2);
                 s3 = s2\<lparr>nodes := nodes s2 @
                          [\<lparr>bufferDuration = duration, startedAt = nextStartTimeRef s2,
                            stopCalled = False\<rparr>]\<rparr>;
                 s4 = emit [SourceStart a (nextStartTimeRef s3)] s3;
                 s5 = s4\<lparr>nextStartTimeRef := fadd (nextStartTimeRef s4) duration\<rparr>
             in (Fulfilled, s5\<lparr>audioSourcesRef := audioSourcesRef s5 @ [a]\<rparr>))"

text \<open>\<open>source.stop()\<close> on the node at address \<open>a\<close>.\<close>
definition stopSource :: "nat \<Rightarrow> hook_state \<Rightarrow> hook_state" where
  "stopSource a s =
     emit [SourceStop a] (s\<lparr>nodes := (nodes s)[a := (nodes s ! a)\<lparr>stopCalled := True\<rparr>]\<rparr>)"

text \<open>\<open>audioSourcesRef.current.forEach(source => source.stop())\<close>\<close>
definition stopAllSources :: "hook_state \<Rightarrow> hook_state" where
  "stopAllSources s = fold stopSource (audioSourcesRef s) s"

text \<open>The \<open>interrupted\<close> block of \<open>onmessage\<close> (lines 230-232).\<close>
definition interrupt :: "hook_state \<Rightarrow> hook_state" where
  "interrupt s = (stopAllSources s)\<lparr>audioSourcesRef := [], nextStartTimeRef := 0\<rparr>"

text \<open>The listener of a source's \<open>ended\<close> event:
  \<open>currentSources.delete(source)\<close>.\<close>
definition sourceEnded :: "nat \<Rightarrow> hook_state \<Rightarrow> hook_state" where
  "sourceEnded a s = s\<lparr>audioSourcesRef := filter (\<lambda>b. b \<noteq> a) (audioSourcesRef s)\<rparr>"

text \<open>Line 209: \<open>message.serverContent?.modelTurn?.parts[0]?.inlineData?.data\<close>.\<close>
definition audioDataOf :: "message \<Rightarrow> error + string option" where
  "audioDataOf m =
     (case modelTurn m of
        None \<Rightarrow> Inr None
      | Some PartsMissing \<Rightarrow> Inl TypeError
      | Some (Part0 d) \<Rightarrow> Inr d)"

text \<open>Lines 209-227. A JavaScript string is truthy when it is not empty.\<close>
definition playAudio ::
  "(string \<Rightarrow> real option) \<Rightarrow> real \<Rightarrow> message \<Rightarrow> hook_state \<Rightarrow> outcome \<times> hook_state" where
  "playAudio decodeAudioData currentTime m s =
     (case audioDataOf m of
        Inl e \<Rightarrow> (Rejected e, s)
      | Inr None \<Rightarrow> (Fulfilled, s)
      | Inr (Some d) \<Rightarrow>
          if d \<noteq> [] \<and> outputAudioContextRef s \<noteq> None \<and> outputGainNodeRef s
          then enqueue decodeAudioData currentTime d s
          else (Fulfilled, s))"

text \<open>
  The whole handler (lines 184-234). When line 209 throws or decoding rejects, the
  handler's promise rejects there: nothing catches it, and the \<open>interrupted\<close> block below
  is not reached. The handler is taken to run to its end before the next event is
  handled (the continuation after \<open>await decodeAudioData\<close> is not interleaved with other
  handlers).
\<close>
definition onmessage ::
  "(string \<Rightarrow> real option) \<Rightarrow> string \<Rightarrow> real \<Rightarrow> message \<Rightarrow> hook_state \<Rightarrow> outcome \<times> hook_state" where
  "onmessage decodeAudioData gid currentTime m s =
     (case playAudio decodeAudioData currentTime m (notify (updateTranscript gid m s)) of
        (Rejected e, s2) \<Rightarrow> (Rejected e, s2)
      | (Fulfilled, s2) \<Rightarrow> (Fulfilled, if interrupted m then interrupt s2 else s2))"

section \<open>Teardown\<close>

text \<open>\<open>track.stop()\<close> on the track at address \<open>a\<close>.\<close>
definition stopTrack :: "nat \<Rightarrow> hook_state \<Rightarrow> hook_state" where
  "stopTrack a s =
     emit [TrackStop a] (s\<lparr>tracks := (tracks s)[a := (tracks s ! a)\<lparr>ended := True\<rparr>]\<rparr>)"

text \<open>\<open>cleanup\<close> (lines 43-80). A timer id is a positive number, so a set
  \<open>frameIntervalRef\<close> is truthy.\<close>
definition cleanup :: "hook_state \<Rightarrow> hook_state" where
  "cleanup s =
     (let s1 = (case frameIntervalRef s of
                  Some t \<Rightarrow> (emit [ClearInterval t] s)\<lparr>frameIntervalRef := None\<rparr>
                | None \<Rightarrow> s);
          s2 = (stopAllSources s1)\<lparr>audioSourcesRef := []\<rparr>;
          s3 = (if scriptProcessorRef s2
                then (emit [ProcessorDisconnect] s2)\<lparr>scriptProcessorRef := False\<rparr>
                else s2);
          s4 = (case mediaStreamRef s3 of
                  Some m \<Rightarrow> (fold stopTrack (streams s3 ! m) s3)\<lparr>mediaStreamRef := None\<rparr>
                | None \<Rightarrow> s3);
          s5 = s4\<lparr>localStream := None\<rparr>;
          s6 = (case inputAudioContextRef s5 of
                  Some c \<Rightarrow> if c \<noteq> Closed then emit [InputContextClose] s5 else s5
                | None \<Rightarrow> s5);
          s7 = (case outputAudioContextRef s6 of
                  Some c \<Rightarrow> if c \<noteq> Closed then emit [OutputContextClose] s6 else s6
                | None \<Rightarrow> s6)
      in s7\<lparr>inputAudioContextRef := None, outputAudioContextRef := None,
            nextStartTimeRef := 0, sessionPromiseRef := None,
            videoElementRef := None, canvasElementRef := False,
            isConnected := False, isConnecting := False\<rparr>)"

text \<open>
  \<open>stopSession\<close> (lines 82-92). It awaits the session promise first: when that never
  settles, \<open>stopSession\<close> never reaches \<open>cleanup\<close> (\<open>None\<close>). A rejection is caught and
  logged. \<open>session.close()\<close> is taken not to throw, and the function is taken to run to
  its end before the next event is handled.
\<close>
definition stopSession :: "hook_state \<Rightarrow> hook_state option" where
  "stopSession s =
     (case sessionPromiseRef s of
        None \<Rightarrow> Some (cleanup s)
      | Some Resolves \<Rightarrow> Some (cleanup (emit [SessionClose] s))
      | Some Rejects \<Rightarrow> Some (cleanup (emit [ConsoleError ''Error closing session:''] s))
      | Some Pending \<Rightarrow> None)"

text \<open>The transport callbacks \<open>onclose\<close> and \<open>onerror\<close> (lines 235-239).\<close>
definition onclose :: "hook_state \<Rightarrow> hook_state" where
  "onclose s = cleanup s"

definition onerror :: "hook_state \<Rightarrow> hook_state" where
  "onerror s = cleanup (emit [ConsoleError ''Session error:''] s)"

text \<open>The three triggers of teardown.\<close>
datatype trigger = ExplicitStop | TransportError | TransportClose

definition fire :: "trigger \<Rightarrow> hook_state \<Rightarrow> hook_state option" where
  "fire t s =
     (case t of
        ExplicitStop \<Rightarrow> stopSession s
      | TransportError \<Rightarrow> Some (onerror s)
      | TransportClose \<Rightarrow> Some (onclose s))"


section \<open>Session start and camera switch\<close>

text \<open>\<open>startVideoFrameStreaming\<close> (lines 94-121); \<open>timerId\<close> is what
  \<open>setInterval\<close>
  returns. The 2d context of the canvas is taken to exist.\<close>
definition startVideoFrameStreaming :: "nat \<Rightarrow> hook_state \<Rightarrow> hook_state" where
  "startVideoFrameStreaming timerId s =
     (if videoElementRef s = None \<or> \<not> canvasElementRef s then s
      else s\<lparr>frameIntervalRef := Some timerId\<rparr>)"

text \<open>
  \<open>startSession\<close> (lines 123-246) up to the call of \<open>ai.live.connect\<close>. \<open>camera\<close> is the
  answer of \<open>getUserMedia\<close>: \<open>None\<close> when it rejects, otherwise the device of the video
  track of the new stream. \<open>connecting\<close> is the promise \<open>ai.live.connect\<close> returns. The
  guard reads the React state cells as they are when the function is called.
\<close>
definition startSession ::
  "string option \<Rightarrow> promise \<Rightarrow> string option \<Rightarrow> hook_state \<Rightarrow> hook_state" where
  "startSession camera connecting deviceId s =
     (if isConnected s \<or> isConnecting s then s
      else
        let s1 = emit [OnTranscriptionUpdate [] []] (s\<lparr>isConnecting := True, transcriptionsRef := []\<rparr>);
            s2 = s1\<lparr>currentInputTranscriptionRef := None, currentOutputTranscriptionRef := None\<rparr>;
            wanted = (case deviceId of
                        Some d \<Rightarrow> if d \<noteq> [] then Some d else None
                      | None \<Rightarrow> None);
            s3 = emit [GetUserMedia True wanted] s2
        in case camera of
             None \<Rightarrow> cleanup (emit [ConsoleError ''Failed to start session:''] s3)
           | Some dev \<Rightarrow>
               let mic = length (tracks s3);
                   cam = Suc mic;
                   stream = length (streams s3)
               in s3\<lparr>tracks := tracks s3 @
                        [\<lparr>kindOf = AudioKind, deviceOf = ''default'', ended = False\<rparr>,
                         \<lparr>kindOf = VideoKind, deviceOf = dev, ended = False\<rparr>],
                      streams := streams s3 @ [[mic, cam]],
                      mediaStreamRef := Some stream,
                      localStream := Some stream,
                      videoElementRef := Some (Some stream),
                      canvasElementRef := True,
                      inputAudioContextRef := Some Running,
                      outputAudioContextRef := Some Running,
                      outputGainNodeRef := True,
                      sessionPromiseRef := Some connecting\<rparr>)"

text \<open>The transport callback \<open>onopen\<close> (lines 160-183).\<close>
definition onopen :: "nat \<Rightarrow> hook_state \<Rightarrow> hook_state" where
  "onopen timerId s =
     (let s1 = s\<lparr>isConnecting := False, isConnected := True\<rparr>
      in if inputAudioContextRef s1 = None \<or> mediaStreamRef s1 = None then s1
         else (startVideoFrameStreaming timerId s1)\<lparr>scriptProcessorRef := True\<rparr>)"

text \<open>\<open>stream.getVideoTracks()\<close> of the stream at address \<open>m\<close>.\<close>
definition getVideoTracks :: "nat \<Rightarrow> hook_state \<Rightarrow> nat list" where
  "getVideoTracks m s = filter (\<lambda>a. kindOf (tracks s ! a) = VideoKind) (streams s ! m)"

text \<open>
  \<open>switchCamera\<close> (lines 248-270). \<open>granted\<close> tells whether \<open>getUserMedia\<close> resolves; the
  new stream then holds one video track of the device asked for. With no video track in
  the stream, \<open>oldTrack\<close> is undefined and \<open>oldTrack.stop()\<close> throws. The function is taken
  to run to its end before the next event is handled.
\<close>
definition switchCamera :: "bool \<Rightarrow> string \<Rightarrow> hook_state \<Rightarrow> outcome \<times> hook_state" where
  "switchCamera granted newDeviceId s =
     (case mediaStreamRef s of
        None \<Rightarrow> (Fulfilled, s)
      | Some m \<Rightarrow>
          (case getVideoTracks m s of
             [] \<Rightarrow> (Rejected TypeError, s)
           | oldTrack # _ \<Rightarrow>
               let s1 = stopTrack oldTrack s;
                   s2 = emit [GetUserMedia False (Some newDeviceId)] s1
               in if \<not> granted then (Rejected DeviceAcquisitionFailure, s2)
                  else
                    let newTrack = length (tracks s2);
                        s3 = s2\<lparr>tracks := tracks s2 @
                                 [\<lparr>kindOf = VideoKind, deviceOf = newDeviceId, ended = False\<rparr>],
                               streams := streams s2 @ [[newTrack]]\<rparr>;
                        s4 = s3\<lparr>streams := (streams s3)
                                 [m := filter (\<lambda>a. a \<noteq> oldTrack) (streams s3 ! m) @ [newTrack]]\<rparr>;
                        s5 = (case videoElementRef s4 of
                                Some _ \<Rightarrow> s4\<lparr>videoElementRef := Some (Some m)\<rparr>
                              | None \<Rightarrow> s4)
                    in (Fulfilled, s5\<lparr>localStream := Some m\<rparr>)))"

section \<open>Auxiliary definitions for the statements\<close>

text \<open>The node heap after \<open>stop()\<close> on each of the given sources, in order.\<close>
definition markStopped :: "nat list \<Rightarrow> source_node list \<Rightarrow> source_node list" where
  "markStopped xs ns = fold (\<lambda>a ns. ns[a := (ns ! a)\<lparr>stopCalled := True\<rparr>]) xs ns"

text \<open>The track heap after \<open>stop()\<close> on each of the given tracks, in order.\<close>
definition markEnded :: "nat list \<Rightarrow> track list \<Rightarrow> track list" where
  "markEnded xs ts = fold (\<lambda>a ts. ts[a := (ts ! a)\<lparr>ended := True\<rparr>]) xs ts"

text \<open>\<open>mediaStreamRef.current.getTracks()\<close>, empty when there is no stream.\<close>
definition sessionTracks :: "hook_state \<Rightarrow> nat list" where
  "sessionTracks s = (case mediaStreamRef s of Some m \<Rightarrow> streams s ! m | None \<Rightarrow> [])"

text \<open>The release calls \<open>cleanup\<close> makes from a state, in the order of its blocks.\<close>
definition releaseCalls :: "hook_state \<Rightarrow> call list" where
  "releaseCalls s =
     (case frameIntervalRef s of Some t \<Rightarrow> [ClearInterval t] | None \<Rightarrow> []) @
     map SourceStop (audioSourcesRef s) @
     (if scriptProcessorRef s then [ProcessorDisconnect] else []) @
     map TrackStop (sessionTracks s) @
     (case inputAudioContextRef s of
        Some c \<Rightarrow> if c \<noteq> Closed then [InputContextClose] else [] | None \<Rightarrow> []) @
     (case outputAudioContextRef s of
        Some c \<Rightarrow> if c \<noteq> Closed then [OutputContextClose] else [] | None \<Rightarrow> [])"


text \<open>A session that has started and whose transport has opened: \<open>startSession\<close> with
  the camera \<open>cam0\<close> granted, then \<open>onopen\<close> with the timer id 7.\<close>
definition activeSession :: hook_state where
  "activeSession = onopen 7 (startSession (Some ''cam0'') Resolves None initial)"

text \<open>Handling a sequence of messages. Each comes with the string \<open>generateId\<close>
  would return and the \<open>currentTime\<close> read while it is handled. A rejected
  handler keeps its mutations, and the next message is handled all the same.\<close>
fun handleAll ::
  "(string \<Rightarrow> real option) \<Rightarrow> (string \<times> real \<times> message) list \<Rightarrow> hook_state \<Rightarrow> hook_state" where
  "handleAll dec [] s = s"
| "handleAll dec ((gid, t, m) # es) s = handleAll dec es (snd (onmessage dec gid t m s))"

text \<open>The duration of the chunk a message carries, when it carries a non-empty payload that
  decodes.\<close>
definition chunkDuration :: "(string \<Rightarrow> real option) \<Rightarrow> message \<Rightarrow> real option" where
  "chunkDuration dec m =
     (case audioDataOf m of
        Inr (Some d) \<Rightarrow> if d \<noteq> [] then dec d else None
      | _ \<Rightarrow> None)"

text \<open>The same, read off an element of a message sequence (0 when there is no chunk).\<close>
definition durationOf :: "(string \<Rightarrow> real option) \<Rightarrow> string \<times> real \<times> message \<Rightarrow> real" where
  "durationOf dec e = (case chunkDuration dec (snd (snd e)) of Some d \<Rightarrow> d | None \<Rightarrow> 0)"

text \<open>A message that carries a decodable chunk and no interruption.\<close>
definition plainChunk :: "(string \<Rightarrow> real option) \<Rightarrow> string \<times> real \<times> message \<Rightarrow> bool" where
  "plainChunk dec e \<longleftrightarrow> chunkDuration dec (snd (snd e)) \<noteq> None \<and> \<not> interrupted (snd (snd e))"

text \<open>Every message of the sequence is handled while \<open>nextStartTimeRef\<close> is not
  behind \<open>currentTime\<close>.\<close>
fun onTime ::
  "(string \<Rightarrow> real option) \<Rightarrow> (string \<times> real \<times> message) list \<Rightarrow> hook_state \<Rightarrow> bool" where
  "onTime dec [] s = True"
| "onTime dec ((gid, t, m) # es) s =
     (t \<le> nextStartTimeRef s \<and> onTime dec es (snd (onmessage dec gid t m s)))"

text \<open>A decoder for the examples: the payload \<open>bad\<close> does not decode, any other
  payload decodes to a buffer as long as the payload has characters.\<close>
definition exampleDecoder :: "string \<Rightarrow> real option" where
  "exampleDecoder d = (if d = ''bad'' then None else Some (real (length d)))"

text \<open>A message without any content.\<close>
definition noContent :: message where
  "noContent = \<lparr>inputTranscription = None, outputTranscription = None, turnComplete = False,
                 interrupted = False, modelTurn = None\<rparr>"

text \<open>The double nearest to 0.1: the duration of a buffer of 2400 frames at 24000 Hz.\<close>
definition tenth :: real where
  "tenth = 3602879701896397 / 36028797018963968"

text \<open>A decoder whose buffers all have this duration.\<close>
definition tenthDecoder :: "string \<Rightarrow> real option" where
  "tenthDecoder d = Some tenth"

text \<open>The node of the \<open>k\<close>-th chunk of a sequence that plays back to back from \<open>start\<close>:
  the durations before it are added to \<open>start\<close> one after the other, as doubles.\<close>
definition scheduledNode :: "(string \<Rightarrow> real option) \<Rightarrow> real \<Rightarrow> (string \<times> real \<times> message) list \<Rightarrow> nat \<Rightarrow> source_node" where
  "scheduledNode dec start es k =
     \<lparr>bufferDuration = durationOf dec (es ! k),
      startedAt = foldl fadd start (map (durationOf dec) (take k es)),
      stopCalled = False\<rparr>"


text \<open>The message of the end-to-end scenario: an output transcription, the turn boundary and an
  audio chunk in one event.\<close>
definition greeting :: message where
  "greeting = \<lparr>inputTranscription = None, outputTranscription = Some ''Hi'',
                turnComplete = True, interrupted = False,
                modelTurn = Some (Part0 (Some ''abc''))\<rparr>"

text \<open>The slot of a sender is empty, or it points to an entry of the log that belongs to this
  sender and is not final.\<close>
definition slotOk :: "sender \<Rightarrow> hook_state \<Rightarrow> bool" where
  "slotOk who s =
     (case currentRef who s of
        None \<Rightarrow> True
      | Some a \<Rightarrow> a \<in> set (transcriptionsRef s) \<and> senderT (entries s ! a) = who \<and>
                  \<not> isFinalT (entries s ! a))"

text \<open>The invariant of the transcript state: every address of the log is allocated, the two
  slots are as above, and an entry of the log that is not final is the one its sender's slot
  points to. It holds initially and every operation of the hook keeps it (lemmas below).\<close>
definition transcriptOk :: "hook_state \<Rightarrow> bool" where
  "transcriptOk s \<longleftrightarrow>
     (\<forall>a\<in>set (transcriptionsRef s). a < length (entries s)) \<and>
     slotOk User s \<and> slotOk Ai s \<and>
     (\<forall>a\<in>set (transcriptionsRef s).
        \<not> isFinalT (entries s ! a) \<longrightarrow> currentRef (senderT (entries s ! a)) s = Some a)"

text \<open>Consecutive deltas of one sender, each with the string \<open>generateId\<close> would
  return.\<close>
fun applyDeltas :: "sender \<Rightarrow> (string \<times> string) list \<Rightarrow> hook_state \<Rightarrow> hook_state" where
  "applyDeltas who [] s = s"
| "applyDeltas who ((gid, txt) # ds) s = applyDeltas who ds (applyDelta who gid txt s)"

text \<open>What a later state keeps of an entry: its id, its sender, its text as a prefix, and all of
  it once it is final.\<close>
definition entryKept :: "Transcription \<Rightarrow> Transcription \<Rightarrow> bool" where
  "entryKept e e' \<longleftrightarrow>
     idT e' = idT e \<and> senderT e' = senderT e \<and> prefix (textT e) (textT e') \<and>
     (isFinalT e \<longrightarrow> e' = e)"

text \<open>The same for every entry allocated so far.\<close>
definition heapKept :: "Transcription list \<Rightarrow> Transcription list \<Rightarrow> bool" where
  "heapKept es es' \<longleftrightarrow>
     length es \<le> length es' \<and> (\<forall>a<length es. entryKept (es ! a) (es' ! a))"

text \<open>The active session after the first input transcription \<open>hel\<close>.\<close>
definition heardHel :: hook_state where
  "heardHel =
     snd (onmessage exampleDecoder ''id1'' 0 (noContent\<lparr>inputTranscription := Some ''hel''\<rparr>)
            activeSession)"



text \<open>The invariant of the live set: every source it holds is allocated.\<close>
definition liveOk :: "hook_state \<Rightarrow> bool" where
  "liveOk s \<longleftrightarrow> (\<forall>a\<in>set (audioSourcesRef s). a < length (nodes s))"

text \<open>The events the hook reacts to, each with what the environment answers in it.\<close>
datatype event =
    StartSession "string option" promise "string option"
  | OnOpen nat
  | OnMessage "string \<Rightarrow> real option" string real message
  | SourceEnded nat
  | Teardown trigger
  | SwitchCamera bool string

text \<open>The reaction of the hook to one event. A \<open>stopSession\<close> that never resumes
  leaves the state as it is.\<close>
fun step :: "event \<Rightarrow> hook_state \<Rightarrow> hook_state" where
  "step (StartSession camera connecting deviceId) s = startSession camera connecting deviceId s"
| "step (OnOpen timerId) s = onopen timerId s"
| "step (OnMessage dec gid t m) s = snd (onmessage dec gid t m s)"
| "step (SourceEnded a) s = sourceEnded a s"
| "step (Teardown t) s = (case fire t s of Some s' \<Rightarrow> s' | None \<Rightarrow> s)"
| "step (SwitchCamera granted newDeviceId) s = snd (switchCamera granted newDeviceId s)"

text \<open>The state after a sequence of events.\<close>
definition run :: "event list \<Rightarrow> hook_state \<Rightarrow> hook_state" where
  "run evs s = fold step evs s"

section \<open>Addition of doubles: the exponent and the rounding error\<close>

lemma pow2_nonneg: "0 \<le> k \<Longrightarrow> pow2 k = 2 ^ nat k"
  by (simp add: pow2_def)

lemma pow2_neg: "k \<le> 0 \<Longrightarrow> pow2 k = 1 / 2 ^ nat (- k)"
  by (cases "k = 0") (simp_all add: pow2_def)

lemma pow2_pos: "0 < pow2 k"
  by (simp add: pow2_def)

text \<open>\<open>binade\<close> is the binary exponent.\<close>
lemma binade_bounds:
  assumes "x \<noteq> 0"
  shows "pow2 (binade x) \<le> \<bar>x\<bar> \<and> \<bar>x\<bar> < pow2 (binade x + 1)"
proof (cases "1 \<le> \<bar>x\<bar>")
  case True
  let ?n = "\<lfloor>\<bar>x\<bar>\<rfloor>"
  have n: "0 < ?n" using True by linarith
  have b1: "1 \<le> bitlen ?n" using n by (simp add: bitlen_alt_def)
  from bitlen_bounds [OF n] have lo: "2 ^ nat (bitlen ?n - 1) \<le> ?n" and hi: "?n < 2 ^ nat (bitlen ?n)"
    by simp_all
  have r1: "(2::real) ^ nat (bitlen ?n - 1) \<le> real_of_int ?n"
    using lo of_int_le_iff [of "2 ^ nat (bitlen ?n - 1)" ?n, where ?'a = real] by simp
  have 1: "(2::real) ^ nat (bitlen ?n - 1) \<le> \<bar>x\<bar>"
    using r1 of_int_floor_le [of "\<bar>x\<bar>"] by linarith
  have "?n + 1 \<le> 2 ^ nat (bitlen ?n)" using hi by linarith
  then have r2: "real_of_int ?n + 1 \<le> (2::real) ^ nat (bitlen ?n)"
    using of_int_le_iff [of "?n + 1" "2 ^ nat (bitlen ?n)", where ?'a = real] by simp
  have 2: "\<bar>x\<bar> < (2::real) ^ nat (bitlen ?n)"
    using r2 real_of_int_floor_add_one_gt [of "\<bar>x\<bar>"] by linarith
  show ?thesis
    using True b1 1 2 by (simp add: binade_def pow2_nonneg)
next
  case False
  let ?y = "1 / \<bar>x\<bar>"
  let ?c = "\<lceil>?y\<rceil>"
  have x: "0 < \<bar>x\<bar>" "\<bar>x\<bar> < 1" using assms False by simp_all
  have y: "1 < ?y" using x by simp
  have c: "0 < ?c - 1" using y by linarith
  let ?b = "bitlen (?c - 1)"
  have b1: "1 \<le> ?b" using c by (simp add: bitlen_alt_def)
  from bitlen_bounds [OF c] have lo: "2 ^ nat (?b - 1) \<le> ?c - 1" and hi: "?c - 1 < 2 ^ nat ?b"
    by simp_all
  have "?c \<le> 2 ^ nat ?b" using hi by linarith
  then have r1: "real_of_int ?c \<le> (2::real) ^ nat ?b"
    using of_int_le_iff [of ?c "2 ^ nat ?b", where ?'a = real] by simp
  have yle: "?y \<le> 2 ^ nat ?b"
    using r1 le_of_int_ceiling [of ?y] by linarith
  have r2: "(2::real) ^ nat (?b - 1) \<le> real_of_int ?c - 1"
    using lo of_int_le_iff [of "2 ^ nat (?b - 1)" "?c - 1", where ?'a = real] by simp
  have ygt: "2 ^ nat (?b - 1) < ?y"
    using r2 of_int_ceiling_diff_one_le [of ?y] ceiling_correct [of ?y] by linarith
  have p1: "(0::real) < 2 ^ nat ?b" and p2: "(0::real) < 2 ^ nat (?b - 1)" by simp_all
  have 1: "1 / 2 ^ nat ?b \<le> \<bar>x\<bar>"
    using yle x(1) p1 by (simp add: field_simps)
  have 2: "\<bar>x\<bar> < 1 / 2 ^ nat (?b - 1)"
    using ygt x(1) p2 by (simp add: field_simps)
  have e1: "pow2 (- ?b) = 1 / 2 ^ nat ?b" using b1 by (simp add: pow2_neg)
  have e2: "pow2 (- ?b + 1) = 1 / 2 ^ nat (?b - 1)"
    using b1 pow2_neg [of "- ?b + 1"] by simp
  show ?thesis
    using False 1 2 e1 e2 by (simp add: binade_def)
qed

text \<open>Rounding moves a number by at most half a unit of the last bit.\<close>
lemma roundEven_near: "\<bar>of_int (roundEven x) - x\<bar> \<le> 1 / 2"
proof -
  have "of_int \<lfloor>x\<rfloor> \<le> x" and "x < of_int \<lfloor>x\<rfloor> + 1" by linarith+
  then show ?thesis
    by (auto simp: roundEven_def Let_def)
qed

lemma toDouble_near:
  "\<bar>toDouble x - x\<bar> \<le> pow2 (max (binade x) (- 1022) - 52) / 2"
proof (cases "x = 0")
  case True
  then show ?thesis using pow2_pos [of "max (binade 0) (- 1022) - 52"] by (simp add: toDouble_def)
next
  case False
  let ?e = "max (binade x) (- 1022) - 52"
  have p: "0 < pow2 ?e" by (rule pow2_pos)
  have "toDouble x - x = (of_int (roundEven (x / pow2 ?e)) - x / pow2 ?e) * pow2 ?e"
    using False p by (simp add: toDouble_def Let_def field_simps)
  then have "\<bar>toDouble x - x\<bar> = \<bar>of_int (roundEven (x / pow2 ?e)) - x / pow2 ?e\<bar> * pow2 ?e"
    using p by (simp add: abs_mult)
  also have "\<dots> \<le> 1 / 2 * pow2 ?e"
    using roundEven_near [of "x / pow2 ?e"] p by (intro mult_right_mono) simp_all
  finally show ?thesis by simp
qed

lemma fadd_near: "\<bar>fadd x y - (x + y)\<bar> \<le> pow2 (max (binade (x + y)) (- 1022) - 52) / 2"
  unfolding fadd_def by (rule toDouble_near)

text \<open>The sums of the examples: small integers add exactly.\<close>
lemma fadd_small: "fadd 2 3 = 5" "fadd 5 2 = 7" "fadd 7 1 = 8"
  by code_simp+

section \<open>Teardown: closed form and idempotence\<close>

lemma fold_stopSource:
  "fold stopSource xs s = s\<lparr>nodes := markStopped xs (nodes s), calls := calls s @ map SourceStop xs\<rparr>"
  by (induction xs arbitrary: s) (simp_all add: markStopped_def stopSource_def emit_def)

lemma fold_stopTrack:
  "fold stopTrack xs s = s\<lparr>tracks := markEnded xs (tracks s), calls := calls s @ map TrackStop xs\<rparr>"
  by (induction xs arbitrary: s) (simp_all add: markEnded_def stopTrack_def emit_def)

lemma st1: "(case frameIntervalRef s of
                  Some t \<Rightarrow> (emit [ClearInterval t] s)\<lparr>frameIntervalRef := None\<rparr>
                | None \<Rightarrow> s) = s\<lparr>frameIntervalRef := None, calls := calls s @ (case frameIntervalRef s of Some t \<Rightarrow> [ClearInterval t] | None \<Rightarrow> [])\<rparr>"
  by (cases s) (simp add: emit_def split: option.splits)

lemma st3: "(if scriptProcessorRef s2
                then (emit [ProcessorDisconnect] s2)\<lparr>scriptProcessorRef := False\<rparr>
                else s2) = s2\<lparr>scriptProcessorRef := False, calls := calls s2 @ (if scriptProcessorRef s2 then [ProcessorDisconnect] else [])\<rparr>"
  by (cases s2) (simp add: emit_def)

lemma st4: "(case mediaStreamRef s3 of
                  Some m \<Rightarrow> (fold stopTrack (streams s3 ! m) s3)\<lparr>mediaStreamRef := None\<rparr>
                | None \<Rightarrow> s3) = s3\<lparr>mediaStreamRef := None, tracks := markEnded (sessionTracks s3) (tracks s3),
                   calls := calls s3 @ map TrackStop (sessionTracks s3)\<rparr>"
  by (cases s3) (simp add: fold_stopTrack sessionTracks_def markEnded_def split: option.splits)

lemma st6: "(case inputAudioContextRef s5 of
                  Some c \<Rightarrow> if c \<noteq> Closed then emit [InputContextClose] s5 else s5
                | None \<Rightarrow> s5) = s5\<lparr>calls := calls s5 @ (case inputAudioContextRef s5 of
        Some c \<Rightarrow> if c \<noteq> Closed then [InputContextClose] else [] | None \<Rightarrow> [])\<rparr>"
  by (cases s5) (simp add: emit_def split: option.splits)

lemma st7: "(case outputAudioContextRef s5 of
                  Some c \<Rightarrow> if c \<noteq> Closed then emit [OutputContextClose] s5 else s5
                | None \<Rightarrow> s5) = s5\<lparr>calls := calls s5 @ (case outputAudioContextRef s5 of
        Some c \<Rightarrow> if c \<noteq> Closed then [OutputContextClose] else [] | None \<Rightarrow> [])\<rparr>"
  by (cases s5) (simp add: emit_def split: option.splits)

lemma cleanup_eq:
  "cleanup s =
     s\<lparr>frameIntervalRef := None, audioSourcesRef := [],
       nodes := markStopped (audioSourcesRef s) (nodes s),
       scriptProcessorRef := False, mediaStreamRef := None,
       tracks := markEnded (sessionTracks s) (tracks s),
       localStream := None,
       inputAudioContextRef := None, outputAudioContextRef := None,
       nextStartTimeRef := 0, sessionPromiseRef := None,
       videoElementRef := None, canvasElementRef := False,
       isConnected := False, isConnecting := False,
       calls := calls s @ releaseCalls s\<rparr>"
  unfolding cleanup_def st1 st3 st4 st6 st7 stopAllSources_def fold_stopSource Let_def
  by (simp add: releaseCalls_def sessionTracks_def cong: option.case_cong)



lemma activeSession_eq:
  "activeSession =
     \<lparr>isConnecting = False, isConnected = True, localStream = Some 0,
      sessionPromiseRef = Some Resolves, mediaStreamRef = Some 0,
      inputAudioContextRef = Some Running, outputAudioContextRef = Some Running,
      scriptProcessorRef = True, outputGainNodeRef = True,
      nextStartTimeRef = 0, audioSourcesRef = [],
      videoElementRef = Some (Some 0), canvasElementRef = True, frameIntervalRef = Some 7,
      transcriptionsRef = [], currentInputTranscriptionRef = None,
      currentOutputTranscriptionRef = None,
      entries = [], nodes = [],
      tracks = [\<lparr>kindOf = AudioKind, deviceOf = ''default'', ended = False\<rparr>,
                \<lparr>kindOf = VideoKind, deviceOf = ''cam0'', ended = False\<rparr>],
      streams = [[0, 1]],
      calls = [OnTranscriptionUpdate [] [], GetUserMedia True None]\<rparr>"
  by (simp add: activeSession_def onopen_def startSession_def initial_def emit_def
      startVideoFrameStreaming_def)
















section \<open>Camera switch\<close>

text \<open>
  Claim C10. With no session media stream (\<open>mediaStreamRef.current\<close> is null: the hook
  has just been mounted, or \<open>cleanup\<close> has run), \<open>switchCamera\<close> returns at once: its promise
  is fulfilled and the state, with its heaps and its record of calls, is the one it was
  given, so no device is acquired and no track is stopped.
\<close>
theorem switchCamera_without_stream:
  "(mediaStreamRef s = None \<longrightarrow> switchCamera granted newDeviceId s = (Fulfilled, s)) \<and>
   switchCamera granted newDeviceId initial = (Fulfilled, initial) \<and>
   switchCamera granted newDeviceId (cleanup s) = (Fulfilled, cleanup s)"
  by (simp add: switchCamera_def initial_def cleanup_eq)

theorem switchCamera_without_stream_witness:
  "mediaStreamRef initial = None \<and>
   switchCamera True ''cam1'' initial = (Fulfilled, initial) \<and>
   calls (snd (switchCamera True ''cam1'' initial)) = []"
  using switchCamera_without_stream [of initial True "''cam1''"]
  by (simp add: initial_def)

text \<open>
  Claim C3, as the code has it. With a session stream that holds a video track,
  \<open>switchCamera\<close> stops the old track first and asks for the new device afterwards
  (\<open>TrackStop\<close> precedes \<open>GetUserMedia\<close> in the record of calls). When the device is
  granted, the new track replaces the old one in the session stream, which the local
  preview and the video element then show; the other tracks are untouched. When it is
  refused, the promise rejects and the only changes are the old track, which is ended and
  still in the stream, and the two calls.
\<close>
theorem switchCamera_stops_then_acquires:
  assumes "mediaStreamRef s = Some m" and "getVideoTracks m s = oldTrack # rest"
  shows "switchCamera False newDeviceId s =
           (Rejected DeviceAcquisitionFailure,
            s\<lparr>tracks := (tracks s)[oldTrack := (tracks s ! oldTrack)\<lparr>ended := True\<rparr>],
              calls := calls s @ [TrackStop oldTrack, GetUserMedia False (Some newDeviceId)]\<rparr>) \<and>
         switchCamera True newDeviceId s =
           (Fulfilled,
            s\<lparr>tracks := (tracks s)[oldTrack := (tracks s ! oldTrack)\<lparr>ended := True\<rparr>] @
                  [\<lparr>kindOf = VideoKind, deviceOf = newDeviceId, ended = False\<rparr>],
              streams := (streams s @ [[length (tracks s)]])
                  [m := filter (\<lambda>a. a \<noteq> oldTrack) ((streams s @ [[length (tracks s)]]) ! m) @
                        [length (tracks s)]],
              videoElementRef := (case videoElementRef s of
                                    Some _ \<Rightarrow> Some (Some m) | None \<Rightarrow> None),
              localStream := Some m,
              calls := calls s @ [TrackStop oldTrack, GetUserMedia False (Some newDeviceId)]\<rparr>)"
  using assms
  by (cases s) (simp add: switchCamera_def stopTrack_def emit_def Let_def split: option.splits)

theorem switchCamera_stops_then_acquires_witness:
  "mediaStreamRef activeSession = Some 0 \<and> getVideoTracks 0 activeSession = [1] \<and>
   fst (switchCamera True ''cam1'' activeSession) = Fulfilled \<and>
   tracks (snd (switchCamera True ''cam1'' activeSession)) =
     [\<lparr>kindOf = AudioKind, deviceOf = ''default'', ended = False\<rparr>,
      \<lparr>kindOf = VideoKind, deviceOf = ''cam0'', ended = True\<rparr>,
      \<lparr>kindOf = VideoKind, deviceOf = ''cam1'', ended = False\<rparr>] \<and>
   streams (snd (switchCamera True ''cam1'' activeSession)) = [[0, 2], [2]] \<and>
   tracks (snd (switchCamera False ''cam1'' activeSession)) =
     [\<lparr>kindOf = AudioKind, deviceOf = ''default'', ended = False\<rparr>,
      \<lparr>kindOf = VideoKind, deviceOf = ''cam0'', ended = True\<rparr>] \<and>
   streams (snd (switchCamera False ''cam1'' activeSession)) = [[0, 1]]"
proof -
  have m: "mediaStreamRef activeSession = Some 0"
    and v: "getVideoTracks 0 activeSession = [1]"
    by (simp_all add: activeSession_eq getVideoTracks_def)
  from switchCamera_stops_then_acquires [OF m v, of "''cam1''"]
  show ?thesis using m v by (simp add: activeSession_eq)
qed

text \<open>The claim as stated fails: in an active session, a refused acquisition leaves the
  old camera track ended, and the stop call comes before the acquisition.\<close>
theorem switchCamera_stops_old_track_counterexample:
  "mediaStreamRef activeSession = Some 0 \<and>
   getVideoTracks 0 activeSession = [1] \<and>
   \<not> ended (tracks activeSession ! 1) \<and>
   fst (switchCamera False ''cam1'' activeSession) = Rejected DeviceAcquisitionFailure \<and>
   ended (tracks (snd (switchCamera False ''cam1'' activeSession)) ! 1) \<and>
   calls (snd (switchCamera False ''cam1'' activeSession)) =
     calls activeSession @ [TrackStop 1, GetUserMedia False (Some ''cam1'')]"
  by (simp add: activeSession_eq switchCamera_def getVideoTracks_def stopTrack_def emit_def)

section \<open>Playback scheduling\<close>

lemma enqueue_decoded:
  "dec d = Some duration \<Longrightarrow>
   enqueue dec t d s =
     (Fulfilled,
      s\<lparr>nextStartTimeRef := fadd (max (nextStartTimeRef s) t) duration,
        nodes := nodes s @
          [\<lparr>bufferDuration = duration, startedAt = max (nextStartTimeRef s) t,
            stopCalled = False\<rparr>],
        calls := calls s @
          [DecodeAudioData d, SourceStart (length (nodes s)) (max (nextStartTimeRef s) t)],
        audioSourcesRef := audioSourcesRef s @ [length (nodes s)]\<rparr>)"
  by (cases s) (simp add: enqueue_def emit_def Let_def)

lemma enqueue_failed:
  "dec d = None \<Longrightarrow>
   enqueue dec t d s =
     (Rejected DecodeFailure,
      s\<lparr>nextStartTimeRef := max (nextStartTimeRef s) t,
        calls := calls s @ [DecodeAudioData d]\<rparr>)"
  by (cases s) (simp add: enqueue_def emit_def Let_def)

lemma applyDelta_playback:
  "calls (applyDelta w g x s) = calls s \<and> nodes (applyDelta w g x s) = nodes s \<and>
   nextStartTimeRef (applyDelta w g x s) = nextStartTimeRef s \<and>
   audioSourcesRef (applyDelta w g x s) = audioSourcesRef s \<and>
   outputAudioContextRef (applyDelta w g x s) = outputAudioContextRef s \<and>
   outputGainNodeRef (applyDelta w g x s) = outputGainNodeRef s"
  by (simp add: applyDelta_def Let_def appendText_def setCurrentRef_def currentRef_def
      split: option.splits sender.splits)

lemma completeTurn_playback:
  "calls (completeTurn s) = calls s \<and> nodes (completeTurn s) = nodes s \<and>
   nextStartTimeRef (completeTurn s) = nextStartTimeRef s \<and>
   audioSourcesRef (completeTurn s) = audioSourcesRef s \<and>
   outputAudioContextRef (completeTurn s) = outputAudioContextRef s \<and>
   outputGainNodeRef (completeTurn s) = outputGainNodeRef s"
  by (simp add: completeTurn_def Let_def setFinal_def split: option.splits)

lemma updateTranscript_playback:
  "calls (updateTranscript g m s) = calls s \<and> nodes (updateTranscript g m s) = nodes s \<and>
   nextStartTimeRef (updateTranscript g m s) = nextStartTimeRef s \<and>
   audioSourcesRef (updateTranscript g m s) = audioSourcesRef s \<and>
   outputAudioContextRef (updateTranscript g m s) = outputAudioContextRef s \<and>
   outputGainNodeRef (updateTranscript g m s) = outputGainNodeRef s"
  by (simp add: updateTranscript_def Let_def applyDelta_playback completeTurn_playback
      split: option.splits)

lemma playAudio_taken:
  assumes "audioDataOf m = Inr (Some d)" and "d \<noteq> []"
    and "outputAudioContextRef s \<noteq> None" and "outputGainNodeRef s"
  shows "playAudio dec t m (notify (updateTranscript g m s)) =
           enqueue dec t d (notify (updateTranscript g m s))"
  using assms by (simp add: playAudio_def notify_def emit_def updateTranscript_playback)

lemma onmessage_scheduled:
  assumes "audioDataOf m = Inr (Some d)" and "d \<noteq> []"
    and "outputAudioContextRef s \<noteq> None" and "outputGainNodeRef s"
    and "dec d = Some duration"
  shows "onmessage dec g t m s =
           (Fulfilled,
            (if interrupted m then interrupt else (\<lambda>u. u))
              ((updateTranscript g m s)
                 \<lparr>nextStartTimeRef := fadd (max (nextStartTimeRef s) t) duration,
                  nodes := nodes s @
                    [\<lparr>bufferDuration = duration, startedAt = max (nextStartTimeRef s) t,
                      stopCalled = False\<rparr>],
                  calls := calls s @
                    [OnTranscriptionUpdate (transcriptionsRef (updateTranscript g m s))
                     (logContents (updateTranscript g m s)),
                     DecodeAudioData d,
                     SourceStart (length (nodes s)) (max (nextStartTimeRef s) t)],
                  audioSourcesRef := audioSourcesRef s @ [length (nodes s)]\<rparr>))"
  unfolding onmessage_def playAudio_taken [OF assms(1-4)] enqueue_decoded [where dec = dec, OF assms(5)]
  by (simp add: notify_def emit_def updateTranscript_playback)

lemma onmessage_undecodable:
  assumes "audioDataOf m = Inr (Some d)" and "d \<noteq> []"
    and "outputAudioContextRef s \<noteq> None" and "outputGainNodeRef s"
    and "dec d = None"
  shows "onmessage dec g t m s =
           (Rejected DecodeFailure,
            (updateTranscript g m s)
               \<lparr>nextStartTimeRef := max (nextStartTimeRef s) t,
                calls := calls s @
                  [OnTranscriptionUpdate (transcriptionsRef (updateTranscript g m s))
                     (logContents (updateTranscript g m s)),
                   DecodeAudioData d]\<rparr>)"
  unfolding onmessage_def playAudio_taken [OF assms(1-4)] enqueue_failed [where dec = dec, OF assms(5)]
  by (simp add: notify_def emit_def updateTranscript_playback)

lemma onmessage_plain:
  assumes "plainChunk dec (g, t, m)"
    and "outputAudioContextRef s \<noteq> None" and "outputGainNodeRef s"
  shows "snd (onmessage dec g t m s) =
            (updateTranscript g m s)
                 \<lparr>nextStartTimeRef := fadd (max (nextStartTimeRef s) t) (durationOf dec (g, t, m)),
                  nodes := nodes s @
                    [\<lparr>bufferDuration = durationOf dec (g, t, m),
                      startedAt = max (nextStartTimeRef s) t, stopCalled = False\<rparr>],
                  calls := calls s @
                    [OnTranscriptionUpdate (transcriptionsRef (updateTranscript g m s))
                     (logContents (updateTranscript g m s))] @
                    (case audioDataOf m of Inr (Some d) \<Rightarrow> [DecodeAudioData d] | _ \<Rightarrow> []) @
                    [SourceStart (length (nodes s)) (max (nextStartTimeRef s) t)],
                  audioSourcesRef := audioSourcesRef s @ [length (nodes s)]\<rparr>"
proof -
  from assms(1) obtain d duration where d: "audioDataOf m = Inr (Some d)" "d \<noteq> []"
    "dec d = Some duration" and ni: "\<not> interrupted m"
    by (auto simp: plainChunk_def chunkDuration_def split: sum.splits option.splits if_splits)
  have "durationOf dec (g, t, m) = duration"
    using d by (simp add: durationOf_def chunkDuration_def)
  then show ?thesis
    using onmessage_scheduled [where dec = dec, OF d(1,2) assms(2,3) d(3), of g t] ni d(1) by simp
qed

lemma plain_step:
  assumes "plainChunk dec (g, t, m)"
    and "outputAudioContextRef s \<noteq> None" and "outputGainNodeRef s"
  shows "nodes (snd (onmessage dec g t m s)) =
           nodes s @ [\<lparr>bufferDuration = durationOf dec (g, t, m),
                       startedAt = max (nextStartTimeRef s) t, stopCalled = False\<rparr>]"
    and "nextStartTimeRef (snd (onmessage dec g t m s)) =
           fadd (max (nextStartTimeRef s) t) (durationOf dec (g, t, m))"
    and "outputAudioContextRef (snd (onmessage dec g t m s)) = outputAudioContextRef s"
    and "outputGainNodeRef (snd (onmessage dec g t m s)) = outputGainNodeRef s"
  unfolding onmessage_plain [OF assms] by (simp_all add: updateTranscript_playback)

lemma scheduledNode_Cons:
  "scheduledNode dec start (e # es) (Suc k) = scheduledNode dec (fadd start (durationOf dec e)) es k"
  by (simp add: scheduledNode_def)

lemma run_on_time:
  assumes "list_all (plainChunk dec) es"
    and "outputAudioContextRef s \<noteq> None" and "outputGainNodeRef s"
    and "onTime dec es s"
  shows "nodes (handleAll dec es s) =
           nodes s @ map (scheduledNode dec (nextStartTimeRef s) es) [0..<length es] \<and>
         nextStartTimeRef (handleAll dec es s) =
           foldl fadd (nextStartTimeRef s) (map (durationOf dec) es)"
  using assms
proof (induction es arbitrary: s)
  case Nil
  then show ?case by simp
next
  case (Cons e es)
  obtain g t m where e: "e = (g, t, m)" by (cases e) auto
  let ?s' = "snd (onmessage dec g t m s)"
  have pc: "plainChunk dec (g, t, m)" and rest: "list_all (plainChunk dec) es"
    using Cons.prems(1) e by simp_all
  have le: "t \<le> nextStartTimeRef s" and ot: "onTime dec es ?s'"
    using Cons.prems(4) e by simp_all
  note st = plain_step [OF pc Cons.prems(2,3)]
  have clock: "nextStartTimeRef ?s' = fadd (nextStartTimeRef s) (durationOf dec e)"
    using st(2) le e by (simp add: max_def)
  have ih: "nodes (handleAll dec es ?s') =
              nodes ?s' @ map (scheduledNode dec (nextStartTimeRef ?s') es) [0..<length es] \<and>
            nextStartTimeRef (handleAll dec es ?s') =
              foldl fadd (nextStartTimeRef ?s') (map (durationOf dec) es)"
    using Cons.IH [OF rest _ _ ot] st(3,4) Cons.prems(2,3) by simp
  have first: "scheduledNode dec (nextStartTimeRef s) (e # es) 0 =
                 \<lparr>bufferDuration = durationOf dec e, startedAt = nextStartTimeRef s,
                  stopCalled = False\<rparr>"
    by (simp add: scheduledNode_def)
  have "map (scheduledNode dec (nextStartTimeRef s) (e # es)) [0..<length (e # es)] =
          scheduledNode dec (nextStartTimeRef s) (e # es) 0 #
          map (scheduledNode dec (nextStartTimeRef ?s') es) [0..<length es]"
    by (simp add: map_upt_Suc scheduledNode_Cons clock del: upt_Suc)
  then show ?case
    using ih st(1) first le e clock by (simp add: max_def del: upt_Suc)
qed

text \<open>
  Claim C1, as the code has it. A sequence of messages, each carrying a decodable chunk
  and no interruption, is handled in a session with an output context; every message
  after the first arrives while \<open>nextStartTimeRef\<close> is not behind \<open>currentTime\<close>. Then the
  nodes created are, in order, one per chunk, with the duration of the chunk. The first
  chunk starts at \<open>max(nextStartTimeRef, currentTime)\<close> of the first message, and every
  later chunk starts at the value the clock was given by the chunk before it: the start of
  that chunk plus its duration, added as doubles. So chunk \<open>k\<close> starts at the first start
  with the durations before it added one after the other, each addition rounded, and the
  clock ends at the first start with all durations added in this way. A chunk therefore
  starts within half a unit of the last bit of the exact end of the chunk before it. In
  any state, one
  enqueue of a decodable chunk starts it at \<open>max(nextStartTimeRef, currentTime)\<close> and sets
  the clock to that time plus its duration, added as doubles.
\<close>
theorem chunks_play_back_to_back:
  assumes "list_all (plainChunk dec) ((g1, t1, m1) # rest)"
    and "outputAudioContextRef s \<noteq> None" and "outputGainNodeRef s"
    and "onTime dec rest (snd (onmessage dec g1 t1 m1 s))"
  shows "nodes (handleAll dec ((g1, t1, m1) # rest) s) =
           nodes s @
           map (\<lambda>k. \<lparr>bufferDuration = durationOf dec (((g1, t1, m1) # rest) ! k),
                      startedAt = foldl fadd (max (nextStartTimeRef s) t1)
                        (map (durationOf dec) (take k ((g1, t1, m1) # rest))),
                      stopCalled = False\<rparr>)
             [0..<length ((g1, t1, m1) # rest)] \<and>
         nextStartTimeRef (handleAll dec ((g1, t1, m1) # rest) s) =
           foldl fadd (max (nextStartTimeRef s) t1)
             (map (durationOf dec) ((g1, t1, m1) # rest)) \<and>
         (\<forall>k. k < length rest \<longrightarrow>
            startedAt (nodes (handleAll dec ((g1, t1, m1) # rest) s) ! (length (nodes s) + Suc k)) =
              fadd (startedAt (nodes (handleAll dec ((g1, t1, m1) # rest) s) ! (length (nodes s) + k)))
                (bufferDuration (nodes (handleAll dec ((g1, t1, m1) # rest) s) ! (length (nodes s) + k))) \<and>
            \<bar>startedAt (nodes (handleAll dec ((g1, t1, m1) # rest) s) ! (length (nodes s) + Suc k)) -
               (startedAt (nodes (handleAll dec ((g1, t1, m1) # rest) s) ! (length (nodes s) + k)) +
                bufferDuration (nodes (handleAll dec ((g1, t1, m1) # rest) s) ! (length (nodes s) + k)))\<bar>
              \<le> pow2 (max (binade
                    (startedAt (nodes (handleAll dec ((g1, t1, m1) # rest) s) ! (length (nodes s) + k)) +
                     bufferDuration (nodes (handleAll dec ((g1, t1, m1) # rest) s) ! (length (nodes s) + k))))
                  (- 1022) - 52) / 2) \<and>
         (\<forall>t d duration. dec d = Some duration \<longrightarrow>
            enqueue dec t d s =
              (Fulfilled,
               s\<lparr>nextStartTimeRef := fadd (max (nextStartTimeRef s) t) duration,
                 nodes := nodes s @
                   [\<lparr>bufferDuration = duration, startedAt = max (nextStartTimeRef s) t,
                     stopCalled = False\<rparr>],
                 calls := calls s @
                   [DecodeAudioData d,
                    SourceStart (length (nodes s)) (max (nextStartTimeRef s) t)],
                 audioSourcesRef := audioSourcesRef s @ [length (nodes s)]\<rparr>))"
proof -
  let ?e = "(g1, t1, m1)"
  let ?s' = "snd (onmessage dec g1 t1 m1 s)"
  let ?start = "max (nextStartTimeRef s) t1"
  have pc: "plainChunk dec ?e" and tl: "list_all (plainChunk dec) rest"
    using assms(1) by simp_all
  note st = plain_step [OF pc assms(2,3)]
  have run: "nodes (handleAll dec rest ?s') =
               nodes ?s' @ map (scheduledNode dec (nextStartTimeRef ?s') rest) [0..<length rest] \<and>
             nextStartTimeRef (handleAll dec rest ?s') =
               foldl fadd (nextStartTimeRef ?s') (map (durationOf dec) rest)"
    using run_on_time [OF tl _ _ assms(4)] st(3,4) assms(2,3) by simp
  have "map (scheduledNode dec ?start (?e # rest)) [0..<length (?e # rest)] =
          scheduledNode dec ?start (?e # rest) 0 #
          map (scheduledNode dec (nextStartTimeRef ?s') rest) [0..<length rest]"
    by (simp add: map_upt_Suc scheduledNode_Cons st(2) del: upt_Suc)
  moreover have "scheduledNode dec ?start (?e # rest) 0 =
      \<lparr>bufferDuration = durationOf dec ?e, startedAt = ?start, stopCalled = False\<rparr>"
    by (simp add: scheduledNode_def)
  ultimately have N: "nodes (handleAll dec (?e # rest) s) =
      nodes s @ map (scheduledNode dec ?start (?e # rest)) [0..<length (?e # rest)]"
    using run st(1) by (simp del: upt_Suc)
  have gap: "startedAt (nodes (handleAll dec (?e # rest) s) ! (length (nodes s) + Suc k)) =
      fadd (startedAt (nodes (handleAll dec (?e # rest) s) ! (length (nodes s) + k)))
        (bufferDuration (nodes (handleAll dec (?e # rest) s) ! (length (nodes s) + k)))"
    if "k < length rest" for k
  proof -
    have k: "k < length (?e # rest)" and sk: "Suc k < length (?e # rest)" using that by simp_all
    have "take (Suc k) (?e # rest) = take k (?e # rest) @ [(?e # rest) ! k]"
      by (rule take_Suc_conv_app_nth [OF k])
    then have "startedAt (scheduledNode dec ?start (?e # rest) (Suc k)) =
        fadd (startedAt (scheduledNode dec ?start (?e # rest) k))
          (bufferDuration (scheduledNode dec ?start (?e # rest) k))"
      unfolding scheduledNode_def by (simp del: take_Suc_Cons)
    moreover have "nodes (handleAll dec (?e # rest) s) ! (length (nodes s) + Suc k) =
        scheduledNode dec ?start (?e # rest) (Suc k)"
      unfolding N using sk by (simp add: nth_append del: upt_Suc)
    moreover have "nodes (handleAll dec (?e # rest) s) ! (length (nodes s) + k) =
        scheduledNode dec ?start (?e # rest) k"
      unfolding N using k by (simp add: nth_append del: upt_Suc)
    ultimately show ?thesis by simp
  qed
  have near: "\<bar>startedAt (nodes (handleAll dec (?e # rest) s) ! (length (nodes s) + Suc k)) -
               (startedAt (nodes (handleAll dec (?e # rest) s) ! (length (nodes s) + k)) +
                bufferDuration (nodes (handleAll dec (?e # rest) s) ! (length (nodes s) + k)))\<bar>
              \<le> pow2 (max (binade
                    (startedAt (nodes (handleAll dec (?e # rest) s) ! (length (nodes s) + k)) +
                     bufferDuration (nodes (handleAll dec (?e # rest) s) ! (length (nodes s) + k))))
                  (- 1022) - 52) / 2"
    if "k < length rest" for k
    unfolding gap [OF that] by (rule fadd_near)
  note N
  moreover have "nextStartTimeRef (handleAll dec (?e # rest) s) =
      foldl fadd ?start (map (durationOf dec) (?e # rest))"
    using run st(2) by simp
  ultimately show ?thesis
    unfolding scheduledNode_def using gap near by (simp add: enqueue_decoded del: upt_Suc)
qed

theorem chunks_play_back_to_back_witness:
  "map startedAt (nodes (handleAll exampleDecoder
      [(''g'', 2, noContent\<lparr>modelTurn := Some (Part0 (Some ''abc''))\<rparr>),
       (''g'', 4, noContent\<lparr>modelTurn := Some (Part0 (Some ''de''))\<rparr>),
       (''g'', 7, noContent\<lparr>modelTurn := Some (Part0 (Some ''f''))\<rparr>)] activeSession)) = [2, 5, 7] \<and>
   nextStartTimeRef (handleAll exampleDecoder
      [(''g'', 2, noContent\<lparr>modelTurn := Some (Part0 (Some ''abc''))\<rparr>),
       (''g'', 4, noContent\<lparr>modelTurn := Some (Part0 (Some ''de''))\<rparr>),
       (''g'', 7, noContent\<lparr>modelTurn := Some (Part0 (Some ''f''))\<rparr>)] activeSession) = 8"
proof -
  let ?m1 = "noContent\<lparr>modelTurn := Some (Part0 (Some ''abc''))\<rparr>"
  let ?m2 = "noContent\<lparr>modelTurn := Some (Part0 (Some ''de''))\<rparr>"
  let ?m3 = "noContent\<lparr>modelTurn := Some (Part0 (Some ''f''))\<rparr>"
  let ?rest = "[(''g'', 4::real, ?m2), (''g'', 7, ?m3)]"
  have d: "durationOf exampleDecoder (''g'', 2, ?m1) = 3"
    "durationOf exampleDecoder (''g'', 4, ?m2) = 2"
    "durationOf exampleDecoder (''g'', 7, ?m3) = 1"
    by (simp_all add: durationOf_def chunkDuration_def audioDataOf_def noContent_def
        exampleDecoder_def)
  have p: "plainChunk exampleDecoder (''g'', 2, ?m1)"
    "plainChunk exampleDecoder (''g'', 4, ?m2)"
    "plainChunk exampleDecoder (''g'', 7, ?m3)"
    by (simp_all add: plainChunk_def chunkDuration_def audioDataOf_def noContent_def
        exampleDecoder_def)
  have all: "list_all (plainChunk exampleDecoder) ((''g'', 2, ?m1) # ?rest)"
    using p by simp
  have c: "outputAudioContextRef activeSession \<noteq> None" and g: "outputGainNodeRef activeSession"
    and n: "nodes activeSession = []" and z: "nextStartTimeRef activeSession = 0"
    by (simp_all add: activeSession_eq)
  note s1 = plain_step [OF p(1) c g]
  have c1: "outputAudioContextRef (snd (onmessage exampleDecoder ''g'' 2 ?m1 activeSession)) \<noteq> None"
    and g1: "outputGainNodeRef (snd (onmessage exampleDecoder ''g'' 2 ?m1 activeSession))"
    using s1(3,4) c g by simp_all
  note s2 = plain_step [OF p(2) c1 g1]
  have ot: "onTime exampleDecoder ?rest (snd (onmessage exampleDecoder ''g'' 2 ?m1 activeSession))"
    using s1(2) s2(2) d z by (simp add: fadd_small)
  from chunks_play_back_to_back [OF all c g ot]
  show ?thesis using d n z by (simp add: upt_rec fadd_small)
qed

text \<open>The claim as stated fails. Four chunks of 2400 frames at 24000 Hz have the duration
  0.1 as a double, \<open>tenth\<close>. Handled in the active session at time 0, the fourth starts at
  0.30000000000000004 (the double \<open>10808639105689192 / 2 ^ 55\<close>), which is not the start
  of the first plus the sum of the three durations before it
  (\<open>10808639105689191 / 2 ^ 55\<close>): the second addition rounds.\<close>
theorem chunk_start_is_rounded_counterexample:
  "list_all (plainChunk tenthDecoder)
     [(''g'', 0, noContent\<lparr>modelTurn := Some (Part0 (Some ''pcm''))\<rparr>),
      (''g'', 0, noContent\<lparr>modelTurn := Some (Part0 (Some ''pcm''))\<rparr>),
      (''g'', 0, noContent\<lparr>modelTurn := Some (Part0 (Some ''pcm''))\<rparr>),
      (''g'', 0, noContent\<lparr>modelTurn := Some (Part0 (Some ''pcm''))\<rparr>)] \<and>
   onTime tenthDecoder
     [(''g'', 0, noContent\<lparr>modelTurn := Some (Part0 (Some ''pcm''))\<rparr>),
      (''g'', 0, noContent\<lparr>modelTurn := Some (Part0 (Some ''pcm''))\<rparr>),
      (''g'', 0, noContent\<lparr>modelTurn := Some (Part0 (Some ''pcm''))\<rparr>),
      (''g'', 0, noContent\<lparr>modelTurn := Some (Part0 (Some ''pcm''))\<rparr>)] activeSession \<and>
   map startedAt (nodes (handleAll tenthDecoder
     [(''g'', 0, noContent\<lparr>modelTurn := Some (Part0 (Some ''pcm''))\<rparr>),
      (''g'', 0, noContent\<lparr>modelTurn := Some (Part0 (Some ''pcm''))\<rparr>),
      (''g'', 0, noContent\<lparr>modelTurn := Some (Part0 (Some ''pcm''))\<rparr>),
      (''g'', 0, noContent\<lparr>modelTurn := Some (Part0 (Some ''pcm''))\<rparr>)] activeSession)) =
     [0, tenth, 3602879701896397 / 18014398509481984,
      10808639105689192 / 36028797018963968] \<and>
   0 + sum_list [tenth, tenth, tenth] = 10808639105689191 / 36028797018963968"
proof -
  let ?m = "noContent\<lparr>modelTurn := Some (Part0 (Some ''pcm''))\<rparr>"
  let ?e = "(''g'', 0::real, ?m)"
  have p: "plainChunk tenthDecoder ?e"
    by (simp add: plainChunk_def chunkDuration_def audioDataOf_def noContent_def tenthDecoder_def)
  have d: "durationOf tenthDecoder ?e = tenth"
    by (simp add: durationOf_def chunkDuration_def audioDataOf_def noContent_def tenthDecoder_def)
  have f: "fadd 0 tenth = tenth"
    "fadd tenth tenth = 3602879701896397 / 18014398509481984"
    "fadd (3602879701896397 / 18014398509481984) tenth = 10808639105689192 / 36028797018963968"
    by code_simp+
  have pos: "0 \<le> tenth" "(0::real) \<le> 3602879701896397 / 18014398509481984"
    "(0::real) \<le> 10808639105689192 / 36028797018963968"
    by (simp_all add: tenth_def)
  have c0: "outputAudioContextRef activeSession \<noteq> None" "outputGainNodeRef activeSession"
    and z0: "nextStartTimeRef activeSession = 0" and n0: "nodes activeSession = []"
    by (simp_all add: activeSession_eq)
  let ?s1 = "snd (onmessage tenthDecoder ''g'' 0 ?m activeSession)"
  note a1 = plain_step [OF p c0]
  have c1: "outputAudioContextRef ?s1 \<noteq> None" "outputGainNodeRef ?s1"
    using a1(3,4) c0 by simp_all
  have z1: "nextStartTimeRef ?s1 = tenth" using a1(2) z0 d f(1) by simp
  let ?s2 = "snd (onmessage tenthDecoder ''g'' 0 ?m ?s1)"
  note a2 = plain_step [OF p c1]
  have c2: "outputAudioContextRef ?s2 \<noteq> None" "outputGainNodeRef ?s2"
    using a2(3,4) c1 by simp_all
  have z2: "nextStartTimeRef ?s2 = 3602879701896397 / 18014398509481984"
    using a2(2) z1 d f(2) pos(1) by (simp add: max_def)
  let ?s3 = "snd (onmessage tenthDecoder ''g'' 0 ?m ?s2)"
  note a3 = plain_step [OF p c2]
  have c3: "outputAudioContextRef ?s3 \<noteq> None" "outputGainNodeRef ?s3"
    using a3(3,4) c2 by simp_all
  have z3: "nextStartTimeRef ?s3 = 10808639105689192 / 36028797018963968"
    using a3(2) z2 d f(3) pos(2) by (simp add: max_def)
  let ?s4 = "snd (onmessage tenthDecoder ''g'' 0 ?m ?s3)"
  note a4 = plain_step [OF p c3]
  have ot: "onTime tenthDecoder [?e, ?e, ?e, ?e] activeSession"
    using z0 z1 z2 z3 pos by simp
  have nodes4: "map startedAt (nodes ?s4) =
     [0, tenth, 3602879701896397 / 18014398509481984, 10808639105689192 / 36028797018963968]"
    unfolding a4(1) a3(1) a2(1) a1(1) using n0 z0 z1 z2 z3 pos by (simp add: max_def)
  have s: "0 + sum_list [tenth, tenth, tenth] = 10808639105689191 / 36028797018963968"
    by (simp add: tenth_def)
  show ?thesis using p ot nodes4 s by simp
qed



lemma interrupt_eq:
  "interrupt s =
     s\<lparr>nodes := markStopped (audioSourcesRef s) (nodes s),
       calls := calls s @ map SourceStop (audioSourcesRef s),
       audioSourcesRef := [], nextStartTimeRef := 0\<rparr>"
  by (simp add: interrupt_def stopAllSources_def fold_stopSource)




lemma updateTranscript_noContent: "updateTranscript g (noContent\<lparr>modelTurn := x\<rparr>) s = s"
  by (simp add: updateTranscript_def noContent_def)

lemma audioDataOf_chunk: "audioDataOf (noContent\<lparr>modelTurn := Some (Part0 (Some d))\<rparr>) = Inr (Some d)"
  by (simp add: audioDataOf_def noContent_def)




lemma enqueue_after_raise:
  assumes "t \<le> t2"
  shows "enqueue dec t2 d2 (s\<lparr>nextStartTimeRef := max c t\<rparr>) =
         enqueue dec t2 d2 (s\<lparr>nextStartTimeRef := c\<rparr>)"
proof (cases "dec d2")
  case None
  show ?thesis
    unfolding enqueue_failed [where dec = dec, OF None] using assms by (simp add: max_def)
next
  case (Some duration)
  show ?thesis
    unfolding enqueue_decoded [where dec = dec, OF Some] using assms by (simp add: max_def)
qed

text \<open>
  Claim C9, as the code has it. When the payload of a message does not decode, the
  handler's promise rejects; it has notified the observer and called the decoder, and it
  makes no other call (nothing is logged). No node is created and the live set is
  unchanged. The clock is not advanced by any duration: it is raised to
  \<open>max(nextStartTimeRef, currentTime)\<close>, as line 212 does before decoding. For a later
  enqueue, at a \<open>currentTime\<close> that is not earlier, this makes no difference: it gives
  the same result as in the state with the clock put back, and a chunk that decodes is
  started at \<open>max\<close> of the clock before the failure and its own \<open>currentTime\<close>.
\<close>
theorem decode_failure_keeps_schedule:
  assumes "audioDataOf m = Inr (Some d)" and "d \<noteq> []"
    and "outputAudioContextRef s \<noteq> None" and "outputGainNodeRef s"
    and "dec d = None"
  shows "onmessage dec g t m s =
           (Rejected DecodeFailure,
            (updateTranscript g m s)
               \<lparr>nextStartTimeRef := max (nextStartTimeRef s) t,
                calls := calls s @
                  [OnTranscriptionUpdate (transcriptionsRef (updateTranscript g m s))
                     (logContents (updateTranscript g m s)),
                   DecodeAudioData d]\<rparr>) \<and>
         nodes (snd (onmessage dec g t m s)) = nodes s \<and>
         audioSourcesRef (snd (onmessage dec g t m s)) = audioSourcesRef s \<and>
         (\<forall>t2 d2. t \<le> t2 \<longrightarrow>
            enqueue dec t2 d2 (snd (onmessage dec g t m s)) =
            enqueue dec t2 d2 ((snd (onmessage dec g t m s))\<lparr>nextStartTimeRef := nextStartTimeRef s\<rparr>)) \<and>
         (\<forall>t2 d2 duration. t \<le> t2 \<and> dec d2 = Some duration \<longrightarrow>
            fst (enqueue dec t2 d2 (snd (onmessage dec g t m s))) = Fulfilled \<and>
            nodes (snd (enqueue dec t2 d2 (snd (onmessage dec g t m s)))) =
              nodes s @ [\<lparr>bufferDuration = duration, startedAt = max (nextStartTimeRef s) t2,
                          stopCalled = False\<rparr>] \<and>
            nextStartTimeRef (snd (enqueue dec t2 d2 (snd (onmessage dec g t m s)))) =
              fadd (max (nextStartTimeRef s) t2) duration)"
proof -
  let ?u = "(updateTranscript g m s)
               \<lparr>calls := calls s @
                  [OnTranscriptionUpdate (transcriptionsRef (updateTranscript g m s))
                     (logContents (updateTranscript g m s)),
                   DecodeAudioData d]\<rparr>"
  have om: "onmessage dec g t m s =
              (Rejected DecodeFailure, ?u\<lparr>nextStartTimeRef := max (nextStartTimeRef s) t\<rparr>)"
    unfolding onmessage_undecodable [where dec = dec, OF assms] by simp
  have restored: "(?u\<lparr>nextStartTimeRef := max (nextStartTimeRef s) t\<rparr>)
                    \<lparr>nextStartTimeRef := nextStartTimeRef s\<rparr> =
                  ?u\<lparr>nextStartTimeRef := nextStartTimeRef s\<rparr>" by simp
  have same: "enqueue dec t2 d2 (snd (onmessage dec g t m s)) =
              enqueue dec t2 d2 ((snd (onmessage dec g t m s))\<lparr>nextStartTimeRef := nextStartTimeRef s\<rparr>)"
    if "t \<le> t2" for t2 d2
    unfolding om snd_conv restored by (rule enqueue_after_raise [OF that])
  have next_ok: "fst (enqueue dec t2 d2 (snd (onmessage dec g t m s))) = Fulfilled \<and>
            nodes (snd (enqueue dec t2 d2 (snd (onmessage dec g t m s)))) =
              nodes s @ [\<lparr>bufferDuration = duration, startedAt = max (nextStartTimeRef s) t2,
                          stopCalled = False\<rparr>] \<and>
            nextStartTimeRef (snd (enqueue dec t2 d2 (snd (onmessage dec g t m s)))) =
              fadd (max (nextStartTimeRef s) t2) duration"
    if "t \<le> t2" and "dec d2 = Some duration" for t2 d2 duration
    unfolding om snd_conv enqueue_decoded [where dec = dec, OF that(2)]
    using that(1) by (simp add: updateTranscript_playback max_def)
  have "nodes (snd (onmessage dec g t m s)) = nodes s \<and>
        audioSourcesRef (snd (onmessage dec g t m s)) = audioSourcesRef s"
    unfolding om by (simp add: updateTranscript_playback)
  moreover have "onmessage dec g t m s =
           (Rejected DecodeFailure,
            (updateTranscript g m s)
               \<lparr>nextStartTimeRef := max (nextStartTimeRef s) t,
                calls := calls s @
                  [OnTranscriptionUpdate (transcriptionsRef (updateTranscript g m s))
                     (logContents (updateTranscript g m s)),
                   DecodeAudioData d]\<rparr>)"
    by (rule onmessage_undecodable [where dec = dec, OF assms])
  ultimately show ?thesis using same next_ok by blast
qed

lemma onmessage_no_audio:
  assumes "audioDataOf m = Inr None"
  shows "onmessage dec g t m s =
           (Fulfilled, if interrupted m then interrupt (notify (updateTranscript g m s))
                       else notify (updateTranscript g m s))"
  using assms by (simp add: onmessage_def playAudio_def)

theorem decode_failure_keeps_schedule_witness:
  "fst (onmessage exampleDecoder ''g'' 5
          (noContent\<lparr>modelTurn := Some (Part0 (Some ''bad''))\<rparr>) activeSession) =
     Rejected DecodeFailure \<and>
   nodes (snd (onmessage exampleDecoder ''g'' 5
          (noContent\<lparr>modelTurn := Some (Part0 (Some ''bad''))\<rparr>) activeSession)) = [] \<and>
   nodes (snd (enqueue exampleDecoder 6 ''abc''
     (snd (onmessage exampleDecoder ''g'' 5
          (noContent\<lparr>modelTurn := Some (Part0 (Some ''bad''))\<rparr>) activeSession)))) =
     [\<lparr>bufferDuration = 3, startedAt = 6, stopCalled = False\<rparr>] \<and>
   nodes (snd (enqueue exampleDecoder 6 ''abc'' activeSession)) =
     [\<lparr>bufferDuration = 3, startedAt = 6, stopCalled = False\<rparr>]"
proof -
  let ?bad = "noContent\<lparr>modelTurn := Some (Part0 (Some ''bad''))\<rparr>"
  have ne: "''bad'' \<noteq> []" by simp
  have c: "outputAudioContextRef activeSession \<noteq> None" "outputGainNodeRef activeSession"
    and f: "nodes activeSession = []" "nextStartTimeRef activeSession = 0"
    by (simp_all add: activeSession_eq)
  have e: "exampleDecoder ''bad'' = None" by (simp add: exampleDecoder_def)
  have e2: "(5::real) \<le> 6 \<and> exampleDecoder ''abc'' = Some 3" by (simp add: exampleDecoder_def)
  note T = decode_failure_keeps_schedule
    [where dec = exampleDecoder, OF audioDataOf_chunk ne c e, of "''g''" 5]
  have 1: "fst (onmessage exampleDecoder ''g'' 5 ?bad activeSession) = Rejected DecodeFailure"
    using T [THEN conjunct1] by simp
  have 2: "nodes (snd (onmessage exampleDecoder ''g'' 5 ?bad activeSession)) = []"
    using T [THEN conjunct2, THEN conjunct1] f by simp
  have 3: "nodes (snd (enqueue exampleDecoder 6 ''abc''
             (snd (onmessage exampleDecoder ''g'' 5 ?bad activeSession)))) =
           [\<lparr>bufferDuration = 3, startedAt = 6, stopCalled = False\<rparr>]"
    using T [THEN conjunct2, THEN conjunct2, THEN conjunct2, THEN conjunct2, THEN spec,
        THEN spec, THEN spec, THEN mp, OF e2] f by simp
  have 4: "nodes (snd (enqueue exampleDecoder 6 ''abc'' activeSession)) =
           [\<lparr>bufferDuration = 3, startedAt = 6, stopCalled = False\<rparr>]"
    unfolding enqueue_decoded [where dec = exampleDecoder, OF e2 [THEN conjunct2]]
    using f by simp
  show ?thesis using 1 2 3 4 by simp
qed

text \<open>The claim as stated fails: in the active session with the clock at 0, a payload that
  does not decode, handled at time 5, leaves the clock at 5, where the same message
  without the payload leaves it at 0; and the handler logs nothing.\<close>
theorem decode_failure_moves_clock_counterexample:
  "fst (onmessage exampleDecoder ''g'' 5
          (noContent\<lparr>modelTurn := Some (Part0 (Some ''bad''))\<rparr>) activeSession) =
     Rejected DecodeFailure \<and>
   nextStartTimeRef (snd (onmessage exampleDecoder ''g'' 5
          (noContent\<lparr>modelTurn := Some (Part0 (Some ''bad''))\<rparr>) activeSession)) = 5 \<and>
   nextStartTimeRef (snd (onmessage exampleDecoder ''g'' 5 noContent activeSession)) = 0 \<and>
   calls (snd (onmessage exampleDecoder ''g'' 5
          (noContent\<lparr>modelTurn := Some (Part0 (Some ''bad''))\<rparr>) activeSession)) =
     calls activeSession @ [OnTranscriptionUpdate [] [], DecodeAudioData ''bad'']"
proof -
  let ?bad = "noContent\<lparr>modelTurn := Some (Part0 (Some ''bad''))\<rparr>"
  have ne: "''bad'' \<noteq> []" by simp
  have c: "outputAudioContextRef activeSession \<noteq> None" "outputGainNodeRef activeSession"
    and f: "transcriptionsRef activeSession = []" "nextStartTimeRef activeSession = 0"
    by (simp_all add: activeSession_eq)
  have e: "exampleDecoder ''bad'' = None" by (simp add: exampleDecoder_def)
  have n: "audioDataOf noContent = Inr None" "\<not> interrupted noContent"
    "updateTranscript ''g'' noContent activeSession = activeSession"
    by (simp_all add: audioDataOf_def noContent_def updateTranscript_def)
  have "nextStartTimeRef (snd (onmessage exampleDecoder ''g'' 5 noContent activeSession)) = 0"
    unfolding onmessage_no_audio [OF n(1)] using n(2,3) f by (simp add: notify_def emit_def)
  then show ?thesis
    unfolding onmessage_undecodable [where dec = exampleDecoder, OF audioDataOf_chunk ne c e]
    using f by (simp add: updateTranscript_noContent logContents_def)
qed

section \<open>Transcript aggregation\<close>

lemma applyDelta_new:
  assumes "currentRef who s = None"
  shows "applyDelta who gid txt s =
           setCurrentRef who (Some (length (entries s)))
             (s\<lparr>entries := entries s @
                   [\<lparr>idT = gid, senderT = who, textT = txt, isFinalT = False\<rparr>],
                 transcriptionsRef := transcriptionsRef s @ [length (entries s)]\<rparr>)"
  using assms
  by (cases s; cases who)
     (simp_all add: applyDelta_def currentRef_def setCurrentRef_def appendText_def Let_def)

lemma applyDelta_open:
  assumes "currentRef who s = Some a"
  shows "applyDelta who gid txt s = appendText a txt s"
  using assms by (simp add: applyDelta_def)

lemma transcriptOk_applyDelta:
  assumes "transcriptOk s"
  shows "transcriptOk (applyDelta who gid txt s)"
proof (cases "currentRef who s")
  case None
  show ?thesis
    unfolding applyDelta_new [OF None]
    using assms None
    by (cases who)
       (auto simp: transcriptOk_def slotOk_def currentRef_def setCurrentRef_def nth_append
          split: option.splits sender.splits)
next
  case (Some a)
  show ?thesis
    unfolding applyDelta_open [OF Some]
    using assms Some
    by (cases who)
       (auto simp: transcriptOk_def slotOk_def currentRef_def appendText_def nth_list_update
          split: option.splits sender.splits)
qed

lemma completeTurn_eq:
  "completeTurn s =
     s\<lparr>entries :=
          (let e1 = (case currentInputTranscriptionRef s of
                       Some a \<Rightarrow> (entries s)[a := (entries s ! a)\<lparr>isFinalT := True\<rparr>]
                     | None \<Rightarrow> entries s)
           in case currentOutputTranscriptionRef s of
                Some a \<Rightarrow> e1[a := (e1 ! a)\<lparr>isFinalT := True\<rparr>]
              | None \<Rightarrow> e1),
       currentInputTranscriptionRef := None, currentOutputTranscriptionRef := None\<rparr>"
  by (cases s) (simp add: completeTurn_def setFinal_def Let_def split: option.splits)

lemma completeTurn_closed:
  "currentInputTranscriptionRef s = None \<Longrightarrow> currentOutputTranscriptionRef s = None \<Longrightarrow>
   completeTurn s = s"
  by (cases s) (simp add: completeTurn_eq)

lemma completeTurn_slots:
  "currentInputTranscriptionRef (completeTurn s) = None"
  "currentOutputTranscriptionRef (completeTurn s) = None"
  "currentRef who (completeTurn s) = None"
  "transcriptionsRef (completeTurn s) = transcriptionsRef s"
  "length (entries (completeTurn s)) = length (entries s)"
  by (cases who; simp add: completeTurn_eq currentRef_def Let_def split: option.splits)+

lemma nth_update_total:
  "xs[i := x] ! j = (if i = j \<and> i < length xs then x else xs ! j)"
  by (cases "i < length xs") (auto simp: nth_list_update list_update_beyond)

lemma completeTurn_entry:
  assumes "a < length (entries s)"
  shows "entries (completeTurn s) ! a =
           (if currentInputTranscriptionRef s = Some a \<or> currentOutputTranscriptionRef s = Some a
            then (entries s ! a)\<lparr>isFinalT := True\<rparr> else entries s ! a)"
  using assms
  by (auto simp: completeTurn_eq Let_def nth_update_total split: option.splits)

lemma transcriptOk_completeTurn:
  assumes "transcriptOk s"
  shows "transcriptOk (completeTurn s)"
    and "\<forall>a\<in>set (transcriptionsRef s). isFinalT (entries (completeTurn s) ! a)"
proof -
  have valid: "\<forall>a\<in>set (transcriptionsRef s). a < length (entries s)"
    using assms by (simp add: transcriptOk_def)
  show fin: "\<forall>a\<in>set (transcriptionsRef s). isFinalT (entries (completeTurn s) ! a)"
  proof
    fix a assume a: "a \<in> set (transcriptionsRef s)"
    then have lt: "a < length (entries s)" using valid by simp
    show "isFinalT (entries (completeTurn s) ! a)"
    proof (cases "isFinalT (entries s ! a)")
      case True
      then show ?thesis by (simp add: completeTurn_entry [OF lt])
    next
      case False
      then have "currentRef (senderT (entries s ! a)) s = Some a"
        using assms a by (simp add: transcriptOk_def)
      then have "currentInputTranscriptionRef s = Some a \<or> currentOutputTranscriptionRef s = Some a"
        by (cases "senderT (entries s ! a)") (simp_all add: currentRef_def)
      then show ?thesis by (auto simp: completeTurn_entry [OF lt])
    qed
  qed
  show "transcriptOk (completeTurn s)"
    using valid fin
    by (simp add: transcriptOk_def slotOk_def completeTurn_slots)
qed

lemma transcriptOk_updateTranscript:
  "transcriptOk s \<Longrightarrow> transcriptOk (updateTranscript gid m s)"
  by (simp add: updateTranscript_def Let_def transcriptOk_applyDelta transcriptOk_completeTurn(1)
      split: option.splits)

lemma transcriptOk_fields:
  assumes "entries s' = entries s" and "transcriptionsRef s' = transcriptionsRef s"
    and "currentInputTranscriptionRef s' = currentInputTranscriptionRef s"
    and "currentOutputTranscriptionRef s' = currentOutputTranscriptionRef s"
  shows "transcriptOk s' = transcriptOk s"
  using assms
  by (simp add: transcriptOk_def slotOk_def currentRef_def split: sender.splits
      cong: option.case_cong)

lemma playAudio_transcript:
  "entries (snd (playAudio dec t m s)) = entries s \<and>
   transcriptionsRef (snd (playAudio dec t m s)) = transcriptionsRef s \<and>
   currentInputTranscriptionRef (snd (playAudio dec t m s)) = currentInputTranscriptionRef s \<and>
   currentOutputTranscriptionRef (snd (playAudio dec t m s)) = currentOutputTranscriptionRef s"
proof -
  have "entries (snd (enqueue dec t d s)) = entries s \<and>
   transcriptionsRef (snd (enqueue dec t d s)) = transcriptionsRef s \<and>
   currentInputTranscriptionRef (snd (enqueue dec t d s)) = currentInputTranscriptionRef s \<and>
   currentOutputTranscriptionRef (snd (enqueue dec t d s)) = currentOutputTranscriptionRef s" for d
    by (cases "dec d") (simp_all add: enqueue_failed enqueue_decoded)
  then show ?thesis
    by (simp add: playAudio_def split: sum.splits option.splits)
qed

lemma onmessage_transcript:
  "entries (snd (onmessage dec g t m s)) = entries (updateTranscript g m s) \<and>
   transcriptionsRef (snd (onmessage dec g t m s)) = transcriptionsRef (updateTranscript g m s) \<and>
   currentInputTranscriptionRef (snd (onmessage dec g t m s)) =
     currentInputTranscriptionRef (updateTranscript g m s) \<and>
   currentOutputTranscriptionRef (snd (onmessage dec g t m s)) =
     currentOutputTranscriptionRef (updateTranscript g m s)"
proof (cases "playAudio dec t m (notify (updateTranscript g m s))")
  case (Pair r u)
  have u: "u = snd (playAudio dec t m (notify (updateTranscript g m s)))" using Pair by simp
  have "entries u = entries (updateTranscript g m s) \<and>
        transcriptionsRef u = transcriptionsRef (updateTranscript g m s) \<and>
        currentInputTranscriptionRef u = currentInputTranscriptionRef (updateTranscript g m s) \<and>
        currentOutputTranscriptionRef u = currentOutputTranscriptionRef (updateTranscript g m s)"
    unfolding u by (simp add: playAudio_transcript notify_def emit_def)
  then show ?thesis
    using Pair by (cases r) (simp_all add: onmessage_def interrupt_eq)
qed

lemma transcriptOk_onmessage:
  assumes "transcriptOk s"
  shows "transcriptOk (snd (onmessage dec g t m s))"
  using transcriptOk_fields [of "snd (onmessage dec g t m s)" "updateTranscript g m s"]
    onmessage_transcript [of dec g t m s] transcriptOk_updateTranscript [OF assms, of g m]
  by simp

lemma transcriptOk_initial: "transcriptOk initial"
  by (simp add: transcriptOk_def slotOk_def currentRef_def initial_def)

lemma transcriptOk_activeSession: "transcriptOk activeSession"
  by (simp add: transcriptOk_def slotOk_def currentRef_def activeSession_eq)

lemma appendText_eq:
  "appendText a txt s =
     s\<lparr>entries := (entries s)[a := (entries s ! a)\<lparr>textT := textT (entries s ! a) @ txt\<rparr>]\<rparr>"
  by (simp add: appendText_def)

lemma currentRef_entries: "currentRef who (s\<lparr>entries := e\<rparr>) = currentRef who s"
  by (cases who) (simp_all add: currentRef_def)

lemma applyDeltas_open:
  assumes "currentRef who s = Some a" and "a < length (entries s)"
  shows "applyDeltas who ds s =
           s\<lparr>entries := (entries s)
                [a := (entries s ! a)\<lparr>textT := textT (entries s ! a) @ concat (map snd ds)\<rparr>]\<rparr>"
  using assms
proof (induction ds arbitrary: s)
  case Nil
  then show ?case by simp
next
  case (Cons d ds)
  obtain gid x where d: "d = (gid, x)" by (cases d) auto
  let ?s1 = "appendText a x s"
  have s1: "applyDelta who gid x s = ?s1" by (rule applyDelta_open [OF Cons.prems(1)])
  have ref: "currentRef who ?s1 = Some a"
    using Cons.prems(1) by (simp add: appendText_eq currentRef_entries)
  have len: "a < length (entries ?s1)" using Cons.prems(2) by (simp add: appendText_eq)
  show ?case
    unfolding d applyDeltas.simps s1 Cons.IH [OF ref len]
    using Cons.prems(2) by (simp add: appendText_eq)
qed

lemma applyDeltas_new:
  assumes "currentRef who s = None"
  shows "applyDeltas who ((gid, txt) # ds) s =
           setCurrentRef who (Some (length (entries s)))
             (s\<lparr>entries := entries s @
                   [\<lparr>idT = gid, senderT = who, textT = txt @ concat (map snd ds),
                     isFinalT = False\<rparr>],
                 transcriptionsRef := transcriptionsRef s @ [length (entries s)]\<rparr>)"
proof -
  let ?s1 = "setCurrentRef who (Some (length (entries s)))
             (s\<lparr>entries := entries s @
                   [\<lparr>idT = gid, senderT = who, textT = txt, isFinalT = False\<rparr>],
                 transcriptionsRef := transcriptionsRef s @ [length (entries s)]\<rparr>)"
  have ref: "currentRef who ?s1 = Some (length (entries s))"
    by (cases who) (simp_all add: currentRef_def setCurrentRef_def)
  have len: "length (entries s) < length (entries ?s1)"
    by (cases who) (simp_all add: setCurrentRef_def)
  show ?thesis
    unfolding applyDeltas.simps applyDelta_new [OF assms] applyDeltas_open [OF ref len]
    by (cases who) (simp_all add: setCurrentRef_def)
qed

lemma slot_empty_iff:
  assumes "transcriptOk s"
  shows "(currentRef who s = None) =
         (\<forall>a\<in>set (transcriptionsRef s). senderT (entries s ! a) = who \<longrightarrow> isFinalT (entries s ! a))"
proof
  assume none: "currentRef who s = None"
  show "\<forall>a\<in>set (transcriptionsRef s). senderT (entries s ! a) = who \<longrightarrow> isFinalT (entries s ! a)"
  proof (intro ballI impI)
    fix a assume a: "a \<in> set (transcriptionsRef s)" and w: "senderT (entries s ! a) = who"
    show "isFinalT (entries s ! a)"
    proof (rule ccontr)
      assume "\<not> isFinalT (entries s ! a)"
      then have "currentRef (senderT (entries s ! a)) s = Some a"
        using assms a by (simp add: transcriptOk_def)
      then show False using none w by simp
    qed
  qed
next
  assume all: "\<forall>a\<in>set (transcriptionsRef s). senderT (entries s ! a) = who \<longrightarrow> isFinalT (entries s ! a)"
  show "currentRef who s = None"
  proof (cases "currentRef who s")
    case None
    then show ?thesis .
  next
    case (Some a)
    have "slotOk who s" using assms by (cases who) (simp_all add: transcriptOk_def)
    then have "a \<in> set (transcriptionsRef s) \<and> senderT (entries s ! a) = who \<and>
               \<not> isFinalT (entries s ! a)"
      using Some by (simp add: slotOk_def)
    then show ?thesis using all by blast
  qed
qed

lemma updateTranscript_delta:
  "inputTranscription m = Some txt \<Longrightarrow> \<not> turnComplete m \<Longrightarrow>
   updateTranscript gid m s = applyDelta User gid txt s"
  "inputTranscription m = None \<Longrightarrow> outputTranscription m = Some txt \<Longrightarrow> \<not> turnComplete m \<Longrightarrow>
   updateTranscript gid m s = applyDelta Ai gid txt s"
  "inputTranscription m = None \<Longrightarrow> outputTranscription m = None \<Longrightarrow> turnComplete m \<Longrightarrow>
   updateTranscript gid m s = completeTurn s"
  by (simp_all add: updateTranscript_def)

text \<open>
  Claim C4, as the code has it. In a state that satisfies the invariant, the slot of a
  sender is empty exactly when the log holds no entry of this sender that is not final.
  With an empty slot, a delta allocates a new entry (a new address, appended to the log,
  now the sender's slot) whose id is the string \<open>generateId\<close> returns for this call,
  whose text is the empty string followed by the delta, and which is not final. With a
  slot pointing to an entry, a delta appends its text to that entry and changes nothing
  else. Hence consecutive deltas of one sender, starting from an empty slot, give one new
  entry whose text is the deltas in arrival order. After the turn boundary a delta
  allocates a new entry and leaves the entries finalised before as they are. In
  \<open>onmessage\<close>, an input transcription is a delta of the user and, without one, an output
  transcription is a delta of the model. The id is not compared with the ids in use
  (\<open>generateId\<close> cuts it out of \<open>Math.random\<close>): the ids of the entries stay pairwise
  different exactly when they were and, where an entry is created, the string returned is
  not the id of an entry allocated before.
\<close>
theorem applyDelta_creates_or_appends:
  assumes "transcriptOk s"
  shows "(currentRef who s = None) =
           (\<forall>a\<in>set (transcriptionsRef s).
              senderT (entries s ! a) = who \<longrightarrow> isFinalT (entries s ! a)) \<and>
         (currentRef who s = None \<longrightarrow>
            applyDelta who gid txt s =
              setCurrentRef who (Some (length (entries s)))
                (s\<lparr>entries := entries s @
                      [\<lparr>idT = gid, senderT = who, textT = [] @ txt, isFinalT = False\<rparr>],
                    transcriptionsRef := transcriptionsRef s @ [length (entries s)]\<rparr>)) \<and>
         (\<forall>a. currentRef who s = Some a \<longrightarrow>
            a \<in> set (transcriptionsRef s) \<and> a < length (entries s) \<and>
            senderT (entries s ! a) = who \<and> \<not> isFinalT (entries s ! a) \<and>
            applyDelta who gid txt s =
              s\<lparr>entries := (entries s)
                   [a := (entries s ! a)\<lparr>textT := textT (entries s ! a) @ txt\<rparr>]\<rparr>) \<and>
         (currentRef who s = None \<longrightarrow>
            applyDeltas who ((gid, txt) # ds) s =
              setCurrentRef who (Some (length (entries s)))
                (s\<lparr>entries := entries s @
                      [\<lparr>idT = gid, senderT = who, textT = txt @ concat (map snd ds),
                        isFinalT = False\<rparr>],
                    transcriptionsRef := transcriptionsRef s @ [length (entries s)]\<rparr>)) \<and>
         applyDelta who gid txt (completeTurn s) =
           setCurrentRef who (Some (length (entries s)))
             ((completeTurn s)
                \<lparr>entries := entries (completeTurn s) @
                   [\<lparr>idT = gid, senderT = who, textT = txt, isFinalT = False\<rparr>],
                 transcriptionsRef := transcriptionsRef s @ [length (entries s)]\<rparr>) \<and>
         (inputTranscription m = Some txt \<and> \<not> turnComplete m \<longrightarrow>
            updateTranscript gid m s = applyDelta User gid txt s) \<and>
         (inputTranscription m = None \<and> outputTranscription m = Some txt \<and> \<not> turnComplete m \<longrightarrow>
            updateTranscript gid m s = applyDelta Ai gid txt s) \<and>
         distinct (map idT (entries (applyDelta who gid txt s))) =
           (distinct (map idT (entries s)) \<and>
            (currentRef who s = None \<longrightarrow> gid \<notin> set (map idT (entries s))))"
proof -
  have open_case: "a \<in> set (transcriptionsRef s) \<and> a < length (entries s) \<and>
            senderT (entries s ! a) = who \<and> \<not> isFinalT (entries s ! a) \<and>
            applyDelta who gid txt s =
              s\<lparr>entries := (entries s)
                   [a := (entries s ! a)\<lparr>textT := textT (entries s ! a) @ txt\<rparr>]\<rparr>"
    if "currentRef who s = Some a" for a
  proof -
    have "slotOk who s" using assms by (cases who) (simp_all add: transcriptOk_def)
    then have "a \<in> set (transcriptionsRef s) \<and> senderT (entries s ! a) = who \<and>
               \<not> isFinalT (entries s ! a)"
      using that by (simp add: slotOk_def)
    moreover from this have "a < length (entries s)" using assms by (simp add: transcriptOk_def)
    ultimately show ?thesis
      using applyDelta_open [OF that, of gid "txt"] by (simp add: appendText_eq)
  qed
  have after: "applyDelta who gid txt (completeTurn s) =
           setCurrentRef who (Some (length (entries s)))
             ((completeTurn s)
                \<lparr>entries := entries (completeTurn s) @
                   [\<lparr>idT = gid, senderT = who, textT = txt, isFinalT = False\<rparr>],
                 transcriptionsRef := transcriptionsRef s @ [length (entries s)]\<rparr>)"
    unfolding applyDelta_new [OF completeTurn_slots(3)] by (simp add: completeTurn_slots)
  have ids: "distinct (map idT (entries (applyDelta who gid txt s))) =
           (distinct (map idT (entries s)) \<and>
            (currentRef who s = None \<longrightarrow> gid \<notin> set (map idT (entries s))))"
  proof (cases "currentRef who s")
    case None
    show ?thesis
      unfolding applyDelta_new [OF None] using None
      by (cases who) (auto simp: setCurrentRef_def)
  next
    case (Some a)
    have "map idT ((entries s)[a := (entries s ! a)\<lparr>textT := textT (entries s ! a) @ txt\<rparr>]) =
          map idT (entries s)"
      using open_case [OF Some] by (simp add: map_update list_update_same_conv)
    then show ?thesis
      unfolding applyDelta_open [OF Some] using Some by (simp add: appendText_eq)
  qed
  show ?thesis
    using slot_empty_iff [OF assms, of who] open_case after ids
      applyDelta_new [of who s gid "txt"] applyDeltas_new [of who s gid "txt" ds]
      updateTranscript_delta(1,2) [of m "txt" gid s]
    by simp
qed

lemma transcriptOk_applyDeltas:
  "transcriptOk s \<Longrightarrow> transcriptOk (applyDeltas who ds s)"
  by (induction ds arbitrary: s) (auto simp: transcriptOk_applyDelta)

theorem applyDelta_creates_or_appends_witness:
  "entries (applyDeltas User [(''id1'', ''hel''), (''id2'', ''lo'')] activeSession) =
     [\<lparr>idT = ''id1'', senderT = User, textT = ''hello'', isFinalT = False\<rparr>] \<and>
   transcriptionsRef (applyDeltas User [(''id1'', ''hel''), (''id2'', ''lo'')] activeSession) = [0] \<and>
   entries (applyDelta User ''id3'' ''hi''
      (completeTurn (applyDeltas User [(''id1'', ''hel''), (''id2'', ''lo'')] activeSession))) =
     [\<lparr>idT = ''id1'', senderT = User, textT = ''hello'', isFinalT = True\<rparr>,
      \<lparr>idT = ''id3'', senderT = User, textT = ''hi'', isFinalT = False\<rparr>] \<and>
   transcriptionsRef (applyDelta User ''id3'' ''hi''
      (completeTurn (applyDeltas User [(''id1'', ''hel''), (''id2'', ''lo'')] activeSession))) =
     [0, 1]"
proof -
  let ?x = "applyDeltas User [(''id1'', ''hel''), (''id2'', ''lo'')] activeSession"
  have f: "currentRef User activeSession = None" "entries activeSession = []"
    "transcriptionsRef activeSession = []"
    by (simp_all add: activeSession_eq currentRef_def)
  note T1 = applyDelta_creates_or_appends
    [OF transcriptOk_activeSession, of User "''id1''" "''hel''" "[(''id2'', ''lo'')]"]
  have x: "?x = setCurrentRef User (Some 0)
                  (activeSession
                     \<lparr>entries := [\<lparr>idT = ''id1'', senderT = User, textT = ''hello'',
                                   isFinalT = False\<rparr>],
                      transcriptionsRef := [0]\<rparr>)"
    using T1 [THEN conjunct2, THEN conjunct2, THEN conjunct2, THEN conjunct1, THEN mp, OF f(1)]
    by (simp add: f del: applyDeltas.simps)
  have ok: "transcriptOk ?x"
    by (rule transcriptOk_applyDeltas [OF transcriptOk_activeSession])
  note T2 = applyDelta_creates_or_appends [OF ok, of User "''id3''" "''hi''"]
  have c: "entries (completeTurn ?x) =
             [\<lparr>idT = ''id1'', senderT = User, textT = ''hello'', isFinalT = True\<rparr>]"
    unfolding x by (simp add: completeTurn_eq setCurrentRef_def activeSession_eq del: applyDeltas.simps)
  have l: "entries ?x = [\<lparr>idT = ''id1'', senderT = User, textT = ''hello'', isFinalT = False\<rparr>]"
    "transcriptionsRef ?x = [0]"
    unfolding x by (simp_all add: setCurrentRef_def del: applyDeltas.simps)
  have y: "applyDelta User ''id3'' ''hi'' (completeTurn ?x) =
           setCurrentRef User (Some (length (entries ?x)))
             ((completeTurn ?x)
                \<lparr>entries := entries (completeTurn ?x) @
                   [\<lparr>idT = ''id3'', senderT = User, textT = ''hi'', isFinalT = False\<rparr>],
                 transcriptionsRef := transcriptionsRef ?x @ [length (entries ?x)]\<rparr>)"
    by (rule T2 [THEN conjunct2, THEN conjunct2, THEN conjunct2, THEN conjunct2, THEN conjunct1])
  have "entries (applyDelta User ''id3'' ''hi'' (completeTurn ?x)) =
     [\<lparr>idT = ''id1'', senderT = User, textT = ''hello'', isFinalT = True\<rparr>,
      \<lparr>idT = ''id3'', senderT = User, textT = ''hi'', isFinalT = False\<rparr>]"
    and "transcriptionsRef (applyDelta User ''id3'' ''hi'' (completeTurn ?x)) = [0, 1]"
    unfolding y by (simp_all add: setCurrentRef_def c l del: applyDeltas.simps)
  then show ?thesis using l by (simp del: applyDeltas.simps)
qed

text \<open>The claim as stated fails. \<open>generateId\<close> returns \<open>i\<close> whenever \<open>Math.random\<close> returns 0.5
  (\<open>0.5.toString(36)\<close> is \<open>0.i\<close>). When it does so for the first entry of the user and,
  after the turn boundary, for the next one, the new entry is created with an id that is
  not fresh: the log then lists two entries with the id \<open>i\<close>.\<close>
theorem applyDelta_reuses_id_counterexample:
  "currentRef User (completeTurn (applyDelta User ''i'' ''a'' activeSession)) = None \<and>
   map idT (logContents (completeTurn (applyDelta User ''i'' ''a'' activeSession))) = [''i''] \<and>
   transcriptionsRef
     (applyDelta User ''i'' ''b'' (completeTurn (applyDelta User ''i'' ''a'' activeSession))) =
     [0, 1] \<and>
   map idT (logContents
     (applyDelta User ''i'' ''b'' (completeTurn (applyDelta User ''i'' ''a'' activeSession)))) =
     [''i'', ''i'']"
proof -
  have f: "currentRef User activeSession = None" "entries activeSession = []"
    "transcriptionsRef activeSession = []"
    by (simp_all add: activeSession_eq currentRef_def)
  let ?s1 = "applyDelta User ''i'' ''a'' activeSession"
  have s1: "entries ?s1 = [\<lparr>idT = ''i'', senderT = User, textT = ''a'', isFinalT = False\<rparr>]"
    "transcriptionsRef ?s1 = [0]" "currentInputTranscriptionRef ?s1 = Some 0"
    "currentOutputTranscriptionRef ?s1 = currentOutputTranscriptionRef activeSession"
    unfolding applyDelta_new [OF f(1)] by (simp_all add: setCurrentRef_def f)
  let ?s2 = "completeTurn ?s1"
  have o: "currentOutputTranscriptionRef activeSession = None" by (simp add: activeSession_eq)
  have s2: "entries ?s2 = [\<lparr>idT = ''i'', senderT = User, textT = ''a'', isFinalT = True\<rparr>]"
    "transcriptionsRef ?s2 = [0]"
    by (simp_all add: completeTurn_eq s1 o)
  let ?s3 = "applyDelta User ''i'' ''b'' ?s2"
  have s3: "entries ?s3 = [\<lparr>idT = ''i'', senderT = User, textT = ''a'', isFinalT = True\<rparr>,
                          \<lparr>idT = ''i'', senderT = User, textT = ''b'', isFinalT = False\<rparr>]"
    "transcriptionsRef ?s3 = [0, 1]"
    unfolding applyDelta_new [OF completeTurn_slots(3)]
    by (simp_all add: setCurrentRef_def s2)
  show ?thesis
    using s2 s3 by (simp add: logContents_def completeTurn_slots)
qed

lemma interleaved_turn:
  assumes "currentInputTranscriptionRef s = None" and "currentOutputTranscriptionRef s = None"
  shows "completeTurn (applyDelta Ai g2 t2 (applyDelta User g1 t1 s)) =
           s\<lparr>entries := entries s @
                [\<lparr>idT = g1, senderT = User, textT = t1, isFinalT = True\<rparr>,
                 \<lparr>idT = g2, senderT = Ai, textT = t2, isFinalT = True\<rparr>],
             transcriptionsRef := transcriptionsRef s @
                [length (entries s), Suc (length (entries s))]\<rparr>"
proof -
  let ?s1 = "setCurrentRef User (Some (length (entries s)))
             (s\<lparr>entries := entries s @
                   [\<lparr>idT = g1, senderT = User, textT = t1, isFinalT = False\<rparr>],
                 transcriptionsRef := transcriptionsRef s @ [length (entries s)]\<rparr>)"
  have u: "currentRef User s = None" using assms(1) by (simp add: currentRef_def)
  have a: "currentRef Ai ?s1 = None"
    using assms(2) by (simp add: currentRef_def setCurrentRef_def)
  show ?thesis
    unfolding applyDelta_new [OF u] applyDelta_new [OF a]
    using assms
    by (cases s)
       (simp add: completeTurn_eq setCurrentRef_def Let_def nth_append list_update_append)
qed

text \<open>
  Claim C5, as the code has it. In a state that satisfies the invariant, after the turn
  boundary every entry of the log is final, both slots are empty, and the log lists the
  same entries; the entries the slots pointed to have become final and nothing else of
  any entry has changed, so the next delta of either sender is appended to the log as a
  new entry. With both slots empty the turn boundary changes nothing, and it is
  idempotent. From a state with both slots empty, a delta of the user, a delta of the
  model and the turn boundary add exactly two entries to the log, at two addresses, the
  first of the user and the second of the model, both final, each with the string
  \<open>generateId\<close> returned when it was created as its id. The two ids are not compared with
  each other or with the ids in use: the ids stay pairwise different exactly when they
  were and the two strings returned differ from each other and from the ids of the
  entries allocated before. In \<open>onmessage\<close>, a message with \<open>turnComplete\<close> and no
  transcription is the turn boundary.
\<close>
theorem completeTurn_finalises:
  assumes "transcriptOk s"
  shows "(\<forall>a\<in>set (transcriptionsRef s). isFinalT (entries (completeTurn s) ! a)) \<and>
         currentInputTranscriptionRef (completeTurn s) = None \<and>
         currentOutputTranscriptionRef (completeTurn s) = None \<and>
         transcriptionsRef (completeTurn s) = transcriptionsRef s \<and>
         length (entries (completeTurn s)) = length (entries s) \<and>
         (\<forall>a<length (entries s).
            entries (completeTurn s) ! a =
              (if currentInputTranscriptionRef s = Some a \<or> currentOutputTranscriptionRef s = Some a
               then (entries s ! a)\<lparr>isFinalT := True\<rparr> else entries s ! a)) \<and>
         (\<forall>who gid delta.
            transcriptionsRef (applyDelta who gid delta (completeTurn s)) =
              transcriptionsRef s @ [length (entries s)]) \<and>
         (currentInputTranscriptionRef s = None \<and> currentOutputTranscriptionRef s = None \<longrightarrow>
            completeTurn s = s) \<and>
         completeTurn (completeTurn s) = completeTurn s \<and>
         (currentInputTranscriptionRef s = None \<and> currentOutputTranscriptionRef s = None \<longrightarrow>
            completeTurn (applyDelta Ai g2 t2 (applyDelta User g1 t1 s)) =
              s\<lparr>entries := entries s @
                   [\<lparr>idT = g1, senderT = User, textT = t1, isFinalT = True\<rparr>,
                    \<lparr>idT = g2, senderT = Ai, textT = t2, isFinalT = True\<rparr>],
                 transcriptionsRef := transcriptionsRef s @
                   [length (entries s), Suc (length (entries s))]\<rparr>) \<and>
         (inputTranscription m = None \<and> outputTranscription m = None \<and> turnComplete m \<longrightarrow>
            updateTranscript gid m s = completeTurn s) \<and>
         (currentInputTranscriptionRef s = None \<and> currentOutputTranscriptionRef s = None \<longrightarrow>
            distinct (map idT
              (entries (completeTurn (applyDelta Ai g2 t2 (applyDelta User g1 t1 s))))) =
              (distinct (map idT (entries s)) \<and> g1 \<notin> set (map idT (entries s)) \<and>
               g2 \<notin> set (map idT (entries s)) \<and> g1 \<noteq> g2))"
proof -
  have new: "transcriptionsRef (applyDelta who g d (completeTurn s)) =
               transcriptionsRef s @ [length (entries s)]" for who g d
    unfolding applyDelta_new [OF completeTurn_slots(3)]
    by (cases who) (simp_all add: setCurrentRef_def completeTurn_slots)
  have idem: "completeTurn (completeTurn s) = completeTurn s"
    by (rule completeTurn_closed [OF completeTurn_slots(1,2)])
  have ids: "distinct (map idT
              (entries (completeTurn (applyDelta Ai g2 t2 (applyDelta User g1 t1 s))))) =
              (distinct (map idT (entries s)) \<and> g1 \<notin> set (map idT (entries s)) \<and>
               g2 \<notin> set (map idT (entries s)) \<and> g1 \<noteq> g2)"
    if "currentInputTranscriptionRef s = None" and "currentOutputTranscriptionRef s = None"
    unfolding interleaved_turn [OF that] by auto
  show ?thesis
    using transcriptOk_completeTurn(2) [OF assms] new idem ids
      completeTurn_closed [of s] interleaved_turn [of s g2 t2 g1 t1]
      updateTranscript_delta(3) [of m gid s]
    by (simp add: completeTurn_slots completeTurn_entry)
qed

theorem completeTurn_finalises_witness:
  "transcriptionsRef activeSession = [] \<and>
   completeTurn activeSession = activeSession \<and>
   entries (completeTurn (applyDelta Ai ''id2'' ''b'' (applyDelta User ''id1'' ''a'' activeSession))) =
     [\<lparr>idT = ''id1'', senderT = User, textT = ''a'', isFinalT = True\<rparr>,
      \<lparr>idT = ''id2'', senderT = Ai, textT = ''b'', isFinalT = True\<rparr>] \<and>
   transcriptionsRef
     (completeTurn (applyDelta Ai ''id2'' ''b'' (applyDelta User ''id1'' ''a'' activeSession))) =
     [0, 1]"
proof -
  have f: "currentInputTranscriptionRef activeSession = None \<and>
           currentOutputTranscriptionRef activeSession = None"
    and e: "entries activeSession = []" "transcriptionsRef activeSession = []"
    by (simp_all add: activeSession_eq)
  note T = completeTurn_finalises
    [OF transcriptOk_activeSession, of "''id2''" "''b''" "''id1''" "''a''"]
  have 1: "completeTurn activeSession = activeSession"
    by (rule T [THEN conjunct2, THEN conjunct2, THEN conjunct2, THEN conjunct2, THEN conjunct2,
          THEN conjunct2, THEN conjunct2, THEN conjunct1, THEN mp, OF f])
  have 2: "completeTurn (applyDelta Ai ''id2'' ''b'' (applyDelta User ''id1'' ''a'' activeSession)) =
              activeSession\<lparr>entries := entries activeSession @
                   [\<lparr>idT = ''id1'', senderT = User, textT = ''a'', isFinalT = True\<rparr>,
                    \<lparr>idT = ''id2'', senderT = Ai, textT = ''b'', isFinalT = True\<rparr>],
                 transcriptionsRef := transcriptionsRef activeSession @
                   [length (entries activeSession), Suc (length (entries activeSession))]\<rparr>"
    by (rule T [THEN conjunct2, THEN conjunct2, THEN conjunct2, THEN conjunct2, THEN conjunct2,
          THEN conjunct2, THEN conjunct2, THEN conjunct2, THEN conjunct2, THEN conjunct1,
          THEN mp, OF f])
  show ?thesis unfolding 2 using 1 e by simp
qed

text \<open>The claim as stated fails. When \<open>Math.random\<close> returns 0.5 for both entries,
  \<open>generateId\<close> returns \<open>i\<close> twice, and the two finalised entries, one of the user and one
  of the model, carry the same id.\<close>
theorem interleaved_turn_same_id_counterexample:
  "transcriptionsRef
     (completeTurn (applyDelta Ai ''i'' ''b'' (applyDelta User ''i'' ''a'' activeSession))) =
     [0, 1] \<and>
   logContents
     (completeTurn (applyDelta Ai ''i'' ''b'' (applyDelta User ''i'' ''a'' activeSession))) =
     [\<lparr>idT = ''i'', senderT = User, textT = ''a'', isFinalT = True\<rparr>,
      \<lparr>idT = ''i'', senderT = Ai, textT = ''b'', isFinalT = True\<rparr>]"
proof -
  have f: "currentInputTranscriptionRef activeSession = None"
    "currentOutputTranscriptionRef activeSession = None"
    and e: "entries activeSession = []" "transcriptionsRef activeSession = []"
    by (simp_all add: activeSession_eq)
  show ?thesis
    unfolding interleaved_turn [OF f] by (simp add: logContents_def e)
qed

lemma entryKept_refl: "entryKept e e"
  by (simp add: entryKept_def)

lemma entryKept_trans: "entryKept e1 e2 \<Longrightarrow> entryKept e2 e3 \<Longrightarrow> entryKept e1 e3"
  by (auto simp: entryKept_def)

lemma heapKept_refl: "heapKept es es"
  by (simp add: heapKept_def entryKept_refl)

lemma heapKept_trans: "heapKept e1 e2 \<Longrightarrow> heapKept e2 e3 \<Longrightarrow> heapKept e1 e3"
  unfolding heapKept_def
  by (meson entryKept_trans le_trans less_le_trans)

lemma heapKept_applyDelta:
  assumes "transcriptOk s"
  shows "heapKept (entries s) (entries (applyDelta who gid delta s))"
proof (cases "currentRef who s")
  case None
  show ?thesis
    unfolding applyDelta_new [OF None]
    by (cases who) (simp_all add: setCurrentRef_def heapKept_def nth_append entryKept_refl)
next
  case (Some a)
  have "slotOk who s" using assms by (cases who) (simp_all add: transcriptOk_def)
  then have nf: "\<not> isFinalT (entries s ! a)" using Some by (simp add: slotOk_def)
  show ?thesis
    unfolding applyDelta_open [OF Some] using nf
    by (simp add: appendText_eq heapKept_def nth_update_total entryKept_def)
qed

lemma heapKept_completeTurn: "heapKept (entries s) (entries (completeTurn s))"
  by (simp add: heapKept_def completeTurn_slots completeTurn_entry entryKept_def)

lemma heapKept_updateTranscript:
  assumes "transcriptOk s"
  shows "heapKept (entries s) (entries (updateTranscript gid m s))"
proof -
  have step: "heapKept (entries s) (entries (completeTurn (applyDelta who gid d s)))" for who d
    by (rule heapKept_trans [OF heapKept_applyDelta [OF assms] heapKept_completeTurn])
  show ?thesis
    by (simp add: updateTranscript_def heapKept_applyDelta [OF assms] heapKept_completeTurn
        step heapKept_refl split: option.splits)
qed

lemma applyDelta_log: "prefix (transcriptionsRef s) (transcriptionsRef (applyDelta who gid delta s))"
proof (cases "currentRef who s")
  case None
  show ?thesis
    unfolding applyDelta_new [OF None] by (cases who) (simp_all add: setCurrentRef_def)
next
  case (Some a)
  show ?thesis
    unfolding applyDelta_open [OF Some] by (simp add: appendText_eq)
qed

lemma updateTranscript_log:
  "prefix (transcriptionsRef s) (transcriptionsRef (updateTranscript gid m s))"
  by (simp add: updateTranscript_def completeTurn_slots applyDelta_log split: option.splits)

lemma playAudio_calls: "prefix (calls s) (calls (snd (playAudio dec t m s)))"
proof -
  have "prefix (calls s) (calls (snd (enqueue dec t d s)))" for d
    by (cases "dec d") (simp_all add: enqueue_failed enqueue_decoded)
  then show ?thesis
    by (simp add: playAudio_def split: sum.splits option.splits)
qed

lemma onmessage_calls:
  "prefix (calls s @ [OnTranscriptionUpdate (transcriptionsRef (updateTranscript g m s))
                     (logContents (updateTranscript g m s))])
     (calls (snd (onmessage dec g t m s)))"
proof (cases "playAudio dec t m (notify (updateTranscript g m s))")
  case (Pair r u)
  have "prefix (calls (notify (updateTranscript g m s))) (calls u)"
    using playAudio_calls [of "notify (updateTranscript g m s)" dec t m] Pair by simp
  moreover have "calls (notify (updateTranscript g m s)) =
      calls s @ [OnTranscriptionUpdate (transcriptionsRef (updateTranscript g m s))
                     (logContents (updateTranscript g m s))]"
    by (simp add: notify_def emit_def updateTranscript_playback)
  ultimately have u: "prefix (calls s @ [OnTranscriptionUpdate (transcriptionsRef (updateTranscript g m s))
                     (logContents (updateTranscript g m s))]) (calls u)"
    by simp
  then have "prefix (calls s @ [OnTranscriptionUpdate (transcriptionsRef (updateTranscript g m s))
                     (logContents (updateTranscript g m s))])
               (calls (interrupt u))"
    by (simp add: interrupt_eq prefix_prefix)
  then show ?thesis
    using Pair u by (cases r) (simp_all add: onmessage_def)
qed

lemma handleAll_keeps:
  assumes "transcriptOk s"
  shows "transcriptOk (handleAll dec es s) \<and>
         heapKept (entries s) (entries (handleAll dec es s)) \<and>
         prefix (transcriptionsRef s) (transcriptionsRef (handleAll dec es s)) \<and>
         prefix (calls s) (calls (handleAll dec es s))"
  using assms
proof (induction es arbitrary: s)
  case Nil
  then show ?case by (simp add: heapKept_refl)
next
  case (Cons e es)
  obtain g t m where e: "e = (g, t, m)" by (cases e) auto
  let ?s' = "snd (onmessage dec g t m s)"
  have ok: "transcriptOk ?s'" by (rule transcriptOk_onmessage [OF Cons.prems])
  have h: "heapKept (entries s) (entries ?s')"
    using heapKept_updateTranscript [OF Cons.prems, of g m] onmessage_transcript [of dec g t m s]
    by simp
  have l: "prefix (transcriptionsRef s) (transcriptionsRef ?s')"
    using updateTranscript_log [of s g m] onmessage_transcript [of dec g t m s] by simp
  have c: "prefix (calls s) (calls ?s')"
    using onmessage_calls [of s g m dec t] by (meson append_prefixD)
  from Cons.IH [OF ok] h l c show ?case
    unfolding e handleAll.simps
    by (meson heapKept_trans prefix_order.trans)
qed

lemma heardHel_eq:
  "heardHel =
     activeSession
       \<lparr>entries := [\<lparr>idT = ''id1'', senderT = User, textT = ''hel'', isFinalT = False\<rparr>],
        transcriptionsRef := [0],
        currentInputTranscriptionRef := Some 0,
        calls := calls activeSession @
          [OnTranscriptionUpdate [0] [\<lparr>idT = ''id1'', senderT = User, textT = ''hel'', isFinalT = False\<rparr>]]\<rparr>"
proof -
  let ?m = "noContent\<lparr>inputTranscription := Some ''hel''\<rparr>"
  have a: "audioDataOf ?m = Inr None" and i: "\<not> interrupted ?m"
    and d: "inputTranscription ?m = Some ''hel''" "\<not> turnComplete ?m"
    by (simp_all add: audioDataOf_def noContent_def)
  have n: "currentRef User activeSession = None"
    and f: "entries activeSession = []" "transcriptionsRef activeSession = []"
    by (simp_all add: activeSession_eq currentRef_def)
  show ?thesis
    unfolding heardHel_def onmessage_no_audio [OF a] updateTranscript_delta(1) [OF d]
      applyDelta_new [OF n]
    using i by (simp add: notify_def emit_def setCurrentRef_def f logContents_def)
qed

lemma heardLo_eq:
  "snd (onmessage exampleDecoder ''id2'' 1 (noContent\<lparr>inputTranscription := Some ''lo''\<rparr>)
          heardHel) =
     heardHel
       \<lparr>entries := [\<lparr>idT = ''id1'', senderT = User, textT = ''hello'', isFinalT = False\<rparr>],
        calls := calls heardHel @
          [OnTranscriptionUpdate [0] [\<lparr>idT = ''id1'', senderT = User, textT = ''hello'', isFinalT = False\<rparr>]]\<rparr>"
proof -
  let ?m = "noContent\<lparr>inputTranscription := Some ''lo''\<rparr>"
  have a: "audioDataOf ?m = Inr None" and i: "\<not> interrupted ?m"
    and d: "inputTranscription ?m = Some ''lo''" "\<not> turnComplete ?m"
    by (simp_all add: audioDataOf_def noContent_def)
  have n: "currentRef User heardHel = Some 0"
    and f: "entries heardHel = [\<lparr>idT = ''id1'', senderT = User, textT = ''hel'', isFinalT = False\<rparr>]"
      "transcriptionsRef heardHel = [0]"
    by (simp_all add: heardHel_eq currentRef_def)
  show ?thesis
    unfolding onmessage_no_audio [OF a] updateTranscript_delta(1) [OF d] applyDelta_open [OF n]
    using i by (simp add: notify_def emit_def appendText_eq f logContents_def)
qed

text \<open>
  Claim C8, as the code has it. The first call of every handler is the notification of
  the observer, with a new array that lists the whole log as the transcript update of
  this message leaves it; what the observer reads from it then is what the log holds,
  and the entries it points to are not changed in the rest of the handler. The array is a shallow copy: the entries are shared with the log. Whatever
  messages are handled later, the notifications already made stay as they are, the log
  only grows at its end, every entry keeps its id and its sender, its text at delivery
  stays a prefix of its text, and an entry that was final at delivery is never changed.
  An entry that was not final at delivery changes under the observer's hands.
\<close>
theorem snapshot_shares_open_entries:
  assumes "transcriptOk s"
  shows "prefix (calls s @ [OnTranscriptionUpdate (transcriptionsRef (snd (onmessage dec g t m s)))
                     (logContents (snd (onmessage dec g t m s)))])
           (calls (snd (onmessage dec g t m s))) \<and>
         transcriptionsRef (snd (onmessage dec g t m s)) =
           transcriptionsRef (updateTranscript g m s) \<and>
         entries (snd (onmessage dec g t m s)) = entries (updateTranscript g m s) \<and>
         transcriptOk (snd (onmessage dec g t m s)) \<and>
         prefix (calls s) (calls (handleAll dec es s)) \<and>
         prefix (transcriptionsRef s) (transcriptionsRef (handleAll dec es s)) \<and>
         length (entries s) \<le> length (entries (handleAll dec es s)) \<and>
         (\<forall>a<length (entries s).
            idT (entries (handleAll dec es s) ! a) = idT (entries s ! a) \<and>
            senderT (entries (handleAll dec es s) ! a) = senderT (entries s ! a) \<and>
            prefix (textT (entries s ! a)) (textT (entries (handleAll dec es s) ! a)) \<and>
            (isFinalT (entries s ! a) \<longrightarrow> entries (handleAll dec es s) ! a = entries s ! a))"
proof -
  have "prefix (calls s @ [OnTranscriptionUpdate (transcriptionsRef (snd (onmessage dec g t m s)))
                     (logContents (snd (onmessage dec g t m s)))])
           (calls (snd (onmessage dec g t m s)))"
    using onmessage_calls [of s g m dec t] onmessage_transcript [of dec g t m s]
    by (simp add: logContents_def)
  moreover note onmessage_transcript [of dec g t m s] transcriptOk_onmessage [OF assms, of dec g t m]
  moreover have "heapKept (entries s) (entries (handleAll dec es s))"
    "prefix (transcriptionsRef s) (transcriptionsRef (handleAll dec es s))"
    "prefix (calls s) (calls (handleAll dec es s))"
    using handleAll_keeps [OF assms, of dec es] by simp_all
  ultimately show ?thesis
    unfolding heapKept_def entryKept_def by simp
qed

theorem snapshot_shares_open_entries_witness:
  "transcriptOk heardHel \<and>
   entries heardHel = [\<lparr>idT = ''id1'', senderT = User, textT = ''hel'', isFinalT = False\<rparr>] \<and>
   prefix ''hel''
     (textT (entries (handleAll exampleDecoder
        [(''id2'', 1, noContent\<lparr>inputTranscription := Some ''lo''\<rparr>)] heardHel) ! 0)) \<and>
   entries (handleAll exampleDecoder
        [(''id2'', 1, noContent\<lparr>inputTranscription := Some ''lo''\<rparr>)] heardHel) =
     [\<lparr>idT = ''id1'', senderT = User, textT = ''hello'', isFinalT = False\<rparr>]"
proof -
  have ok: "transcriptOk heardHel"
    unfolding heardHel_def by (rule transcriptOk_onmessage [OF transcriptOk_activeSession])
  have e: "entries heardHel =
             [\<lparr>idT = ''id1'', senderT = User, textT = ''hel'', isFinalT = False\<rparr>]"
    by (simp add: heardHel_eq)
  note T = snapshot_shares_open_entries
    [OF ok, of exampleDecoder _ _ _ "[(''id2'', 1, noContent\<lparr>inputTranscription := Some ''lo''\<rparr>)]"]
  have p: "\<forall>a<length (entries heardHel).
            idT (entries (handleAll exampleDecoder
        [(''id2'', 1, noContent\<lparr>inputTranscription := Some ''lo''\<rparr>)] heardHel) ! a) = idT (entries heardHel ! a) \<and>
            senderT (entries (handleAll exampleDecoder
        [(''id2'', 1, noContent\<lparr>inputTranscription := Some ''lo''\<rparr>)] heardHel) ! a) = senderT (entries heardHel ! a) \<and>
            prefix (textT (entries heardHel ! a)) (textT (entries (handleAll exampleDecoder
        [(''id2'', 1, noContent\<lparr>inputTranscription := Some ''lo''\<rparr>)] heardHel) ! a)) \<and>
            (isFinalT (entries heardHel ! a) \<longrightarrow> entries (handleAll exampleDecoder
        [(''id2'', 1, noContent\<lparr>inputTranscription := Some ''lo''\<rparr>)] heardHel) ! a = entries heardHel ! a)"
    by (rule T [THEN conjunct2, THEN conjunct2, THEN conjunct2, THEN conjunct2, THEN conjunct2,
          THEN conjunct2, THEN conjunct2])
  have 1: "prefix ''hel''
     (textT (entries (handleAll exampleDecoder
        [(''id2'', 1, noContent\<lparr>inputTranscription := Some ''lo''\<rparr>)] heardHel) ! 0))"
    using p [THEN spec, of 0] e by (simp del: handleAll.simps)
  have 2: "entries (handleAll exampleDecoder
        [(''id2'', 1, noContent\<lparr>inputTranscription := Some ''lo''\<rparr>)] heardHel) =
     [\<lparr>idT = ''id1'', senderT = User, textT = ''hello'', isFinalT = False\<rparr>]"
    unfolding handleAll.simps heardLo_eq by simp
  show ?thesis using ok e 1 2 by (simp del: handleAll.simps)
qed

text \<open>The claim as stated fails: the snapshot delivered after the delta \<open>hel\<close> lists the
  entry at address 0, whose text is \<open>hel\<close> then; after the next delta \<open>lo\<close> the same
  snapshot reads \<open>hello\<close>.\<close>
theorem delivered_snapshot_changes_counterexample:
  "last (calls heardHel) =
     OnTranscriptionUpdate [0] [\<lparr>idT = ''id1'', senderT = User, textT = ''hel'', isFinalT = False\<rparr>] \<and>
   map (\<lambda>a. entries heardHel ! a) [0] =
     [\<lparr>idT = ''id1'', senderT = User, textT = ''hel'', isFinalT = False\<rparr>] \<and>
   map (\<lambda>a. entries (snd (onmessage exampleDecoder ''id2'' 1
                (noContent\<lparr>inputTranscription := Some ''lo''\<rparr>) heardHel)) ! a) [0] =
     [\<lparr>idT = ''id1'', senderT = User, textT = ''hello'', isFinalT = False\<rparr>]"
  unfolding heardLo_eq by (simp add: heardHel_eq)

section \<open>Transcript before audio in one message\<close>

lemma interrupt_transcript:
  "entries (interrupt s) = entries s \<and> transcriptionsRef (interrupt s) = transcriptionsRef s"
  by (simp add: interrupt_eq)

lemma applyDelta_slot:
  assumes "transcriptOk s"
  shows "\<exists>a. currentRef who (applyDelta who gid delta s) = Some a \<and>
             a \<in> set (transcriptionsRef (applyDelta who gid delta s)) \<and>
             a < length (entries (applyDelta who gid delta s)) \<and>
             senderT (entries (applyDelta who gid delta s) ! a) = who \<and>
             \<not> isFinalT (entries (applyDelta who gid delta s) ! a) \<and>
             suffix delta (textT (entries (applyDelta who gid delta s) ! a))"
proof (cases "currentRef who s")
  case None
  show ?thesis
    unfolding applyDelta_new [OF None]
    by (cases who) (simp_all add: currentRef_def setCurrentRef_def)
next
  case (Some a)
  have "slotOk who s" using assms by (cases who) (simp_all add: transcriptOk_def)
  then have a: "a \<in> set (transcriptionsRef s)" "senderT (entries s ! a) = who"
    "\<not> isFinalT (entries s ! a)"
    using Some by (simp_all add: slotOk_def)
  then have "a < length (entries s)" using assms by (simp add: transcriptOk_def)
  then show ?thesis
    unfolding applyDelta_open [OF Some] using a Some
    by (simp add: appendText_eq currentRef_entries suffix_def)
qed

lemma delta_is_notified:
  assumes "transcriptOk s"
    and "updateTranscript gid m s =
           (if turnComplete m then completeTurn (applyDelta who gid delta s)
            else applyDelta who gid delta s)"
  shows "\<exists>e\<in>set (logContents (updateTranscript gid m s)).
           senderT e = who \<and> suffix delta (textT e) \<and> isFinalT e = turnComplete m"
proof -
  let ?s1 = "applyDelta who gid delta s"
  from applyDelta_slot [OF assms(1), of who gid delta] obtain a where a:
    "currentRef who ?s1 = Some a" "a \<in> set (transcriptionsRef ?s1)"
    "a < length (entries ?s1)" "senderT (entries ?s1 ! a) = who"
    "\<not> isFinalT (entries ?s1 ! a)" "suffix delta (textT (entries ?s1 ! a))"
    by blast
  show ?thesis
  proof (cases "turnComplete m")
    case False
    then have "entries ?s1 ! a \<in> set (logContents (updateTranscript gid m s))"
      using a(2) assms(2) by (simp add: logContents_def)
    then show ?thesis using a False by blast
  next
    case True
    have slot: "currentInputTranscriptionRef ?s1 = Some a \<or> currentOutputTranscriptionRef ?s1 = Some a"
      using a(1) by (cases who) (simp_all add: currentRef_def)
    have e: "entries (completeTurn ?s1) ! a = (entries ?s1 ! a)\<lparr>isFinalT := True\<rparr>"
      using completeTurn_entry [OF a(3)] slot by auto
    have mem: "entries (completeTurn ?s1) ! a \<in> set (logContents (updateTranscript gid m s))"
      using a(2) assms(2) True by (simp add: logContents_def completeTurn_slots)
    have "senderT (entries (completeTurn ?s1) ! a) = who \<and>
          suffix delta (textT (entries (completeTurn ?s1) ! a)) \<and>
          isFinalT (entries (completeTurn ?s1) ! a) = turnComplete m"
      unfolding e using a(4,6) True by simp
    with mem show ?thesis by (rule bexI [rotated])
  qed
qed

text \<open>
  Claim C6. For a message with an audio payload that reaches the audio branch, the calls
  of the handler are, in this order: the notification of the observer, then the decoding
  of the payload, then (if it decodes) the start of the source, then the stops of an
  interruption. The notification hands over the log as the transcript update of this
  message leaves it, and what the observer reads from it at that moment are the entries
  as the transcript update leaves them: the delta is appended and the turn boundary is
  set before the observer is called, and so before the chunk is decoded and scheduled.
  The log and the entries are, at the end of the handler, still those the transcript
  update produced: the audio branch does not touch them. In a state that satisfies the
  transcript invariant, what the observer reads holds the delta of this very message: an
  entry of the sender of the transcription whose text ends with the text received, final
  exactly when the message is the turn boundary; and at a turn boundary every entry the
  observer reads is final.
\<close>
theorem transcript_before_audio:
  assumes "audioDataOf m = Inr (Some d)" and "d \<noteq> []"
    and "outputAudioContextRef s \<noteq> None" and "outputGainNodeRef s"
  shows "calls (snd (onmessage dec g t m s)) =
           calls s @
           [OnTranscriptionUpdate (transcriptionsRef (updateTranscript g m s))
              (map (\<lambda>a. entries (updateTranscript g m s) ! a)
                 (transcriptionsRef (updateTranscript g m s))),
            DecodeAudioData d] @
           (case dec d of
              None \<Rightarrow> []
            | Some duration \<Rightarrow>
                SourceStart (length (nodes s)) (max (nextStartTimeRef s) t) #
                (if interrupted m
                 then map SourceStop (audioSourcesRef s @ [length (nodes s)]) else [])) \<and>
         entries (snd (onmessage dec g t m s)) = entries (updateTranscript g m s) \<and>
         transcriptionsRef (snd (onmessage dec g t m s)) =
           transcriptionsRef (updateTranscript g m s) \<and>
         (transcriptOk s \<longrightarrow>
            (\<forall>x. inputTranscription m = Some x \<longrightarrow>
               (\<exists>e\<in>set (map (\<lambda>a. entries (updateTranscript g m s) ! a)
                             (transcriptionsRef (updateTranscript g m s))).
                  senderT e = User \<and> suffix x (textT e) \<and> isFinalT e = turnComplete m)) \<and>
            (\<forall>x. inputTranscription m = None \<and> outputTranscription m = Some x \<longrightarrow>
               (\<exists>e\<in>set (map (\<lambda>a. entries (updateTranscript g m s) ! a)
                             (transcriptionsRef (updateTranscript g m s))).
                  senderT e = Ai \<and> suffix x (textT e) \<and> isFinalT e = turnComplete m)) \<and>
            (turnComplete m \<longrightarrow>
               (\<forall>e\<in>set (map (\<lambda>a. entries (updateTranscript g m s) ! a)
                             (transcriptionsRef (updateTranscript g m s))).
                  isFinalT e)))"
proof -
  have seen: "(\<forall>x. inputTranscription m = Some x \<longrightarrow>
               (\<exists>e\<in>set (logContents (updateTranscript g m s)).
                  senderT e = User \<and> suffix x (textT e) \<and> isFinalT e = turnComplete m)) \<and>
            (\<forall>x. inputTranscription m = None \<and> outputTranscription m = Some x \<longrightarrow>
               (\<exists>e\<in>set (logContents (updateTranscript g m s)).
                  senderT e = Ai \<and> suffix x (textT e) \<and> isFinalT e = turnComplete m)) \<and>
            (turnComplete m \<longrightarrow>
               (\<forall>e\<in>set (logContents (updateTranscript g m s)). isFinalT e))"
    if ok: "transcriptOk s"
  proof (intro conjI allI impI)
    fix x assume "inputTranscription m = Some x"
    then have "updateTranscript g m s =
           (if turnComplete m then completeTurn (applyDelta User g x s)
            else applyDelta User g x s)"
      by (simp add: updateTranscript_def)
    from delta_is_notified [OF ok this]
    show "\<exists>e\<in>set (logContents (updateTranscript g m s)).
            senderT e = User \<and> suffix x (textT e) \<and> isFinalT e = turnComplete m" .
  next
    fix x assume "inputTranscription m = None \<and> outputTranscription m = Some x"
    then have "updateTranscript g m s =
           (if turnComplete m then completeTurn (applyDelta Ai g x s)
            else applyDelta Ai g x s)"
      by (simp add: updateTranscript_def)
    from delta_is_notified [OF ok this]
    show "\<exists>e\<in>set (logContents (updateTranscript g m s)).
            senderT e = Ai \<and> suffix x (textT e) \<and> isFinalT e = turnComplete m" .
  next
    assume tc: "turnComplete m"
    define s1 where "s1 =
      (case inputTranscription m of
         Some x \<Rightarrow> applyDelta User g x s
       | None \<Rightarrow> (case outputTranscription m of Some x \<Rightarrow> applyDelta Ai g x s | None \<Rightarrow> s))"
    have ok1: "transcriptOk s1"
      unfolding s1_def using ok by (simp add: transcriptOk_applyDelta split: option.splits)
    have u: "updateTranscript g m s = completeTurn s1"
      unfolding s1_def using tc by (simp add: updateTranscript_def)
    show "\<forall>e\<in>set (logContents (updateTranscript g m s)). isFinalT e"
      unfolding u using transcriptOk_completeTurn(2) [OF ok1]
      by (simp add: logContents_def completeTurn_slots)
  qed
  have main: "calls (snd (onmessage dec g t m s)) =
           calls s @
           [OnTranscriptionUpdate (transcriptionsRef (updateTranscript g m s))
              (map (\<lambda>a. entries (updateTranscript g m s) ! a)
                 (transcriptionsRef (updateTranscript g m s))),
            DecodeAudioData d] @
           (case dec d of
              None \<Rightarrow> []
            | Some duration \<Rightarrow>
                SourceStart (length (nodes s)) (max (nextStartTimeRef s) t) #
                (if interrupted m
                 then map SourceStop (audioSourcesRef s @ [length (nodes s)]) else [])) \<and>
         entries (snd (onmessage dec g t m s)) = entries (updateTranscript g m s) \<and>
         transcriptionsRef (snd (onmessage dec g t m s)) =
           transcriptionsRef (updateTranscript g m s)"
  proof (cases "dec d")
    case None
    show ?thesis
      unfolding onmessage_undecodable [where dec = dec, OF assms None]
      by (simp add: None logContents_def)
  next
    case (Some duration)
    show ?thesis
      unfolding onmessage_scheduled [where dec = dec, OF assms Some]
      by (simp add: Some interrupt_eq logContents_def)
  qed
  show ?thesis
    using main seen unfolding logContents_def by blast
qed

lemma updateTranscript_greeting:
  "updateTranscript ''id1'' greeting activeSession =
     activeSession\<lparr>entries := [\<lparr>idT = ''id1'', senderT = Ai, textT = ''Hi'', isFinalT = True\<rparr>],
                    transcriptionsRef := [0]\<rparr>"
  by (simp add: activeSession_eq updateTranscript_def greeting_def applyDelta_def
      currentRef_def setCurrentRef_def appendText_def completeTurn_def setFinal_def Let_def)

theorem transcript_before_audio_witness:
  "calls (snd (onmessage exampleDecoder ''id1'' 0 greeting activeSession)) =
     calls activeSession @
     [OnTranscriptionUpdate [0] [\<lparr>idT = ''id1'', senderT = Ai, textT = ''Hi'', isFinalT = True\<rparr>],
      DecodeAudioData ''abc'', SourceStart 0 0] \<and>
   map (\<lambda>a. entries (snd (onmessage exampleDecoder ''id1'' 0 greeting activeSession)) ! a) [0] =
     [\<lparr>idT = ''id1'', senderT = Ai, textT = ''Hi'', isFinalT = True\<rparr>] \<and>
   transcriptOk activeSession \<and>
   (\<exists>e\<in>set [\<lparr>idT = ''id1'', senderT = Ai, textT = ''Hi'', isFinalT = True\<rparr>].
      senderT e = Ai \<and> suffix ''Hi'' (textT e) \<and> isFinalT e = turnComplete greeting)"
proof -
  have a: "audioDataOf greeting = Inr (Some ''abc'')" and ne: "''abc'' \<noteq> []"
    by (simp_all add: audioDataOf_def greeting_def)
  have c: "outputAudioContextRef activeSession \<noteq> None" "outputGainNodeRef activeSession"
    and f: "nodes activeSession = []" "nextStartTimeRef activeSession = 0"
    by (simp_all add: activeSession_eq)
  have e: "exampleDecoder ''abc'' = Some 3" by (simp add: exampleDecoder_def)
  have i: "\<not> interrupted greeting" by (simp add: greeting_def)
  note T = transcript_before_audio [where dec = exampleDecoder, OF a ne c, of "''id1''" 0]
  have "calls (snd (onmessage exampleDecoder ''id1'' 0 greeting activeSession)) =
     calls activeSession @
     [OnTranscriptionUpdate [0] [\<lparr>idT = ''id1'', senderT = Ai, textT = ''Hi'', isFinalT = True\<rparr>],
      DecodeAudioData ''abc'', SourceStart 0 0]"
    using T [THEN conjunct1] by (simp add: e i f updateTranscript_greeting logContents_def)
  moreover have "entries (snd (onmessage exampleDecoder ''id1'' 0 greeting activeSession)) =
      [\<lparr>idT = ''id1'', senderT = Ai, textT = ''Hi'', isFinalT = True\<rparr>]"
    using T [THEN conjunct2, THEN conjunct1] by (simp add: updateTranscript_greeting)
  moreover have "\<exists>e\<in>set [\<lparr>idT = ''id1'', senderT = Ai, textT = ''Hi'', isFinalT = True\<rparr>].
      senderT e = Ai \<and> suffix ''Hi'' (textT e) \<and> isFinalT e = turnComplete greeting"
    using T [THEN conjunct2, THEN conjunct2, THEN conjunct2, THEN mp,
        OF transcriptOk_activeSession, THEN conjunct2, THEN conjunct1, THEN spec, of "''Hi''"]
    by (simp add: updateTranscript_greeting greeting_def)
  ultimately show ?thesis using transcriptOk_activeSession by simp
qed

section \<open>The transcript invariant under the other operations\<close>

lemma transcriptOk_cleanup: "transcriptOk (cleanup s) = transcriptOk s"
  by (rule transcriptOk_fields) (simp_all add: cleanup_eq)

lemma transcriptOk_emit: "transcriptOk (emit cs s) = transcriptOk s"
  by (rule transcriptOk_fields) (simp_all add: emit_def)

lemma transcriptOk_fire: "fire t s = Some s' \<Longrightarrow> transcriptOk s' = transcriptOk s"
  by (auto simp: fire_def stopSession_def onerror_def onclose_def transcriptOk_cleanup
      transcriptOk_emit split: trigger.splits option.splits promise.splits)

lemma transcriptOk_startSession:
  assumes "transcriptOk s"
  shows "transcriptOk (startSession camera connecting deviceId s)"
proof (cases "isConnected s \<or> isConnecting s")
  case True
  then show ?thesis using assms by (simp add: startSession_def)
next
  case False
  let ?s2 = "(emit [OnTranscriptionUpdate [] []] (s\<lparr>isConnecting := True, transcriptionsRef := []\<rparr>))
               \<lparr>currentInputTranscriptionRef := None, currentOutputTranscriptionRef := None\<rparr>"
  have reset: "transcriptOk ?s2"
    by (simp add: transcriptOk_def slotOk_def currentRef_def emit_def)
  show ?thesis
  proof (cases camera)
    case None
    then show ?thesis
      using False reset
      by (simp add: startSession_def Let_def transcriptOk_cleanup transcriptOk_emit)
  next
    case (Some dev)
    then show ?thesis
      using False
      by (simp add: startSession_def Let_def transcriptOk_def slotOk_def currentRef_def emit_def)
  qed
qed

lemma transcriptOk_onopen: "transcriptOk (onopen timerId s) = transcriptOk s"
  by (rule transcriptOk_fields)
     (simp_all add: onopen_def startVideoFrameStreaming_def Let_def)

lemma transcriptOk_switchCamera:
  "transcriptOk (snd (switchCamera granted newDeviceId s)) = transcriptOk s"
  by (rule transcriptOk_fields)
     (simp_all add: switchCamera_def stopTrack_def emit_def Let_def
        split: option.splits list.splits)

lemma transcriptOk_sourceEnded: "transcriptOk (sourceEnded a s) = transcriptOk s"
  by (rule transcriptOk_fields) (simp_all add: sourceEnded_def)

section \<open>Invariants of the reachable states\<close>

lemma liveOk_fields:
  assumes "nodes s' = nodes s" and "audioSourcesRef s' = audioSourcesRef s"
  shows "liveOk s' = liveOk s"
  using assms by (simp add: liveOk_def)

lemma liveOk_cleanup: "liveOk (cleanup s)"
  by (simp add: liveOk_def cleanup_eq)

lemma liveOk_emit: "liveOk (emit cs s) = liveOk s"
  by (simp add: liveOk_def emit_def)

lemma liveOk_interrupt: "liveOk (interrupt s)"
  by (simp add: liveOk_def interrupt_eq)

lemma liveOk_enqueue:
  assumes "liveOk s"
  shows "liveOk (snd (enqueue dec t d s))"
  using assms
  by (cases "dec d") (auto simp: enqueue_failed enqueue_decoded liveOk_def)

lemma liveOk_onmessage:
  assumes "liveOk s"
  shows "liveOk (snd (onmessage dec g t m s))"
proof -
  let ?u = "notify (updateTranscript g m s)"
  have u: "liveOk ?u"
    using assms by (simp add: liveOk_def notify_def emit_def updateTranscript_playback)
  have "liveOk (snd (playAudio dec t m ?u))"
    using u liveOk_enqueue [OF u, of dec t]
    by (simp add: playAudio_def split: sum.splits option.splits)
  then show ?thesis
    by (cases "playAudio dec t m ?u"; cases "fst (playAudio dec t m ?u)")
       (auto simp: onmessage_def liveOk_interrupt)
qed

lemma liveOk_step:
  assumes "liveOk s"
  shows "liveOk (step ev s)"
proof (cases ev)
  case (StartSession camera connecting deviceId)
  show ?thesis
    using assms unfolding StartSession
    by (cases camera)
       (simp_all add: startSession_def Let_def liveOk_cleanup, simp add: liveOk_def emit_def)
next
  case (OnOpen timerId)
  have "liveOk (onopen timerId s) = liveOk s"
    by (rule liveOk_fields) (simp_all add: onopen_def startVideoFrameStreaming_def Let_def)
  then show ?thesis using assms OnOpen by simp
next
  case (OnMessage dec gid t m)
  then show ?thesis using liveOk_onmessage [OF assms] by simp
next
  case (SourceEnded a)
  then show ?thesis using assms by (simp add: sourceEnded_def liveOk_def)
next
  case (Teardown t)
  then show ?thesis
    using assms
    by (auto simp: fire_def stopSession_def onerror_def onclose_def liveOk_cleanup
        split: trigger.splits option.splits promise.splits)
next
  case (SwitchCamera granted newDeviceId)
  have "liveOk (snd (switchCamera granted newDeviceId s)) = liveOk s"
    by (rule liveOk_fields)
       (simp_all add: switchCamera_def stopTrack_def emit_def Let_def
          split: option.splits list.splits)
  then show ?thesis using assms SwitchCamera by simp
qed

lemma transcriptOk_step:
  assumes "transcriptOk s"
  shows "transcriptOk (step ev s)"
proof (cases ev)
  case (Teardown t)
  then show ?thesis
    using assms transcriptOk_fire [of t s] by (cases "fire t s") simp_all
qed (simp_all add: assms transcriptOk_startSession transcriptOk_onopen transcriptOk_onmessage
       transcriptOk_sourceEnded transcriptOk_switchCamera)

lemma invariants_run:
  "transcriptOk s \<Longrightarrow> liveOk s \<Longrightarrow> transcriptOk (run evs s) \<and> liveOk (run evs s)"
  unfolding run_def
  by (induction evs arbitrary: s) (simp_all add: transcriptOk_step liveOk_step)

lemma invariants_reachable: "transcriptOk (run evs initial) \<and> liveOk (run evs initial)"
proof (rule invariants_run)
  show "transcriptOk initial" by (rule transcriptOk_initial)
  show "liveOk initial" by (simp add: liveOk_def initial_def)
qed

end
